theory Spec2Isabelle
  imports Complex_Main "HOL-Library.Word" "HOL-Library.AList"
begin

section \<open>JavaScript values\<close>

text \<open>
  A JavaScript string is a sequence of UTF-16 code units; \<open>length\<close>, \<open>slice\<close> and
  \<open>trim\<close> all count code units.  String literals of the source are ASCII and are
  written with \<open>js\<close>.
\<close>

type_synonym code_unit = "16 word"
type_synonym js_string = "code_unit list"

definition js :: "string \<Rightarrow> js_string" where
  "js s = map (\<lambda>c. word_of_nat (of_char c)) s"

text \<open>
  \<open>String.prototype.trim\<close> removes WhiteSpace and LineTerminator code points from both
  ends: TAB, LF, VT, FF, CR, SP, NBSP, U+1680, U+2000..U+200A, U+2028, U+2029, U+202F,
  U+205F, U+3000 and U+FEFF.  All of them are single code units.
\<close>

definition isWhiteSpace :: "code_unit \<Rightarrow> bool" where
  "isWhiteSpace c \<longleftrightarrow>
     c = 0x9 \<or> c = 0xA \<or> c = 0xB \<or> c = 0xC \<or> c = 0xD \<or> c = 0x20 \<or> c = 0xA0 \<or>
     c = 0x1680 \<or> (0x2000 \<le> c \<and> c \<le> 0x200A) \<or> c = 0x2028 \<or> c = 0x2029 \<or>
     c = 0x202F \<or> c = 0x205F \<or> c = 0x3000 \<or> c = 0xFEFF"

definition trim :: "js_string \<Rightarrow> js_string" where
  "trim s = rev (dropWhile isWhiteSpace (rev (dropWhile isWhiteSpace s)))"

text \<open>
  A number is an IEEE double: NaN, an infinity, or a finite value.  The finite values are
  embedded in the rationals; \<open>Math.min\<close>, \<open>Math.max\<close> and the comparisons below select
  one of their arguments and never round.
\<close>

datatype jsnum = NaN | NegInf | Fin rat | PosInf

fun num_le :: "jsnum \<Rightarrow> jsnum \<Rightarrow> bool" where
  "num_le NaN _ = False"
| "num_le _ NaN = False"
| "num_le NegInf _ = True"
| "num_le _ PosInf = True"
| "num_le (Fin a) (Fin b) = (a \<le> b)"
| "num_le (Fin a) NegInf = False"
| "num_le PosInf (Fin b) = False"
| "num_le PosInf NegInf = False"

definition Math_max :: "jsnum \<Rightarrow> jsnum \<Rightarrow> jsnum" where
  "Math_max a b = (if a = NaN \<or> b = NaN then NaN else if num_le a b then b else a)"

definition Math_min :: "jsnum \<Rightarrow> jsnum \<Rightarrow> jsnum" where
  "Math_min a b = (if a = NaN \<or> b = NaN then NaN else if num_le a b then a else b)"

text \<open>
  The value of a property of a parsed JSON message.  \<open>JUndefined\<close> is an absent
  property; \<open>JObject\<close> stands for any object or array (only its type and its truthiness
  are ever inspected).
\<close>

datatype jsval = JUndefined | JNull | JBool bool | JNum jsnum | JStr js_string | JObject

fun truthy :: "jsval \<Rightarrow> bool" where
  "truthy JUndefined = False"
| "truthy JNull = False"
| "truthy (JBool b) = b"
| "truthy (JNum n) = (n \<noteq> NaN \<and> n \<noteq> Fin 0)"
| "truthy (JStr s) = (s \<noteq> [])"
| "truthy JObject = True"

section \<open>Server: the settings reconciler\<close>

text \<open>
  The raw settings are the fields of an incoming message, of any JSON type.  The fallback
  is a settings record: each field is absent or has the type the record gives it (the
  server only ever passes \<open>DEFAULT_SETTINGS\<close> or an earlier result).
\<close>

record raw_settings =
  raw_color :: jsval
  raw_size :: jsval
  raw_glow :: jsval
  raw_cursorMode :: jsval
  raw_username :: jsval

record settings =
  color :: "js_string option"
  size_v :: "jsnum option"
  glow :: "jsnum option"
  cursorMode :: "js_string option"
  username :: "js_string option"

definition DEFAULT_SETTINGS :: settings where
  "DEFAULT_SETTINGS =
     \<lparr>color = Some (js ''#ff6b6b''), size_v = Some (Fin 1), glow = Some (Fin (6/5)),
      cursorMode = Some (js ''halo''), username = Some []\<rparr>"

definition clamp :: "jsnum \<Rightarrow> jsnum \<Rightarrow> jsnum \<Rightarrow> jsnum" where
  "clamp v lo hi = Math_min (Math_max v lo) hi"

text \<open>\<open>a || b\<close> on an optional string: the first operand unless it is absent or empty.\<close>

definition str_or :: "js_string option \<Rightarrow> js_string \<Rightarrow> js_string" where
  "str_or a b = (case a of Some s \<Rightarrow> if s \<noteq> [] then s else b | None \<Rightarrow> b)"

text \<open>\<open>a ?? b\<close> on an optional number: the first operand unless it is absent.\<close>

definition num_nullish :: "jsnum option \<Rightarrow> jsnum \<Rightarrow> jsnum" where
  "num_nullish a b = (case a of Some n \<Rightarrow> n | None \<Rightarrow> b)"

text \<open>
  The test \<open>typeof v === 'string' && v.trim()\<close>, with the trimmed string when it
  succeeds.
\<close>

definition trimmed_string :: "jsval \<Rightarrow> js_string option" where
  "trimmed_string v =
     (case v of JStr s \<Rightarrow> if trim s \<noteq> [] then Some (trim s) else None | _ \<Rightarrow> None)"

definition sanitize_color :: "jsval \<Rightarrow> settings \<Rightarrow> js_string" where
  "sanitize_color c fallback =
     (case trimmed_string c of
        Some t \<Rightarrow> t
      | None \<Rightarrow> str_or (color fallback) (the (color DEFAULT_SETTINGS)))"

definition sanitize_number :: "jsval \<Rightarrow> jsnum option \<Rightarrow> jsnum \<Rightarrow> jsnum" where
  "sanitize_number v fb dflt =
     (let value = (case v of JNum n \<Rightarrow> Some n | _ \<Rightarrow> fb)
      in clamp (num_nullish value dflt) (Fin (1/2)) (Fin 3))"

definition sanitize_cursorMode :: "jsval \<Rightarrow> settings \<Rightarrow> js_string" where
  "sanitize_cursorMode m fallback =
     (let cursorModeValue =
            (if truthy m then m
             else JStr (str_or (cursorMode fallback) (the (cursorMode DEFAULT_SETTINGS))))
      in if cursorModeValue = JStr (js ''star'') then js ''star'' else js ''halo'')"

definition sanitize_username :: "jsval \<Rightarrow> settings \<Rightarrow> js_string" where
  "sanitize_username u fallback =
     (case trimmed_string u of
        Some t \<Rightarrow> take 18 t
      | None \<Rightarrow>
          (case username fallback of
             Some f \<Rightarrow> if f \<noteq> [] \<and> trim f \<noteq> [] then take 18 (trim f) else []
           | None \<Rightarrow> []))"

definition sanitizeSettings :: "raw_settings \<Rightarrow> settings \<Rightarrow> settings" where
  "sanitizeSettings raw fallback =
     \<lparr>color = Some (sanitize_color (raw_color raw) fallback),
      size_v = Some (sanitize_number (raw_size raw) (size_v fallback)
                        (the (size_v DEFAULT_SETTINGS))),
      glow = Some (sanitize_number (raw_glow raw) (glow fallback)
                     (the (glow DEFAULT_SETTINGS))),
      cursorMode = Some (sanitize_cursorMode (raw_cursorMode raw) fallback),
      username = Some (sanitize_username (raw_username raw) fallback)\<rparr>"

text \<open>The message object \<open>{}\<close>: every field absent.\<close>

definition raw_empty :: raw_settings where
  "raw_empty = \<lparr>raw_color = JUndefined, raw_size = JUndefined, raw_glow = JUndefined,
                 raw_cursorMode = JUndefined, raw_username = JUndefined\<rparr>"

text \<open>A settings record read back as the fields of a message.\<close>

definition as_raw :: "settings \<Rightarrow> raw_settings" where
  "as_raw s =
     \<lparr>raw_color = (case color s of Some c \<Rightarrow> JStr c | None \<Rightarrow> JUndefined),
      raw_size = (case size_v s of Some n \<Rightarrow> JNum n | None \<Rightarrow> JUndefined),
      raw_glow = (case glow s of Some n \<Rightarrow> JNum n | None \<Rightarrow> JUndefined),
      raw_cursorMode = (case cursorMode s of Some m \<Rightarrow> JStr m | None \<Rightarrow> JUndefined),
      raw_username = (case username s of Some u \<Rightarrow> JStr u | None \<Rightarrow> JUndefined)\<rparr>"

text \<open>
  The number that \<open>sanitizeSettings\<close> clamps: the raw field when its type is
  \<open>number\<close>, else the fallback's field, else the default.
\<close>

definition chosen_number :: "jsval \<Rightarrow> jsnum option \<Rightarrow> jsnum \<Rightarrow> jsnum" where
  "chosen_number v fb dflt =
     (case v of JNum n \<Rightarrow> n | _ \<Rightarrow> (case fb of Some n \<Rightarrow> n | None \<Rightarrow> dflt))"

section \<open>Server: registry, fan-out and liveness\<close>

datatype ready_state = CONNECTING | OPEN | CLOSING | CLOSED

text \<open>
  A socket object is identified by a number.  \<open>throws\<close> is the behaviour of its
  transport: whether \<open>ws.send\<close> raises.
\<close>

type_synonym ws = nat

record socket =
  readyState :: ready_state
  isAlive :: bool
  throws :: bool

record client_info =
  info_id :: js_string
  info_settings :: settings

text \<open>
  The messages the server sends.  \<open>clientId: clientInfo?.id\<close> is absent when the
  registry has no entry for the socket.  \<open>Event n\<close> stands for any other message.
\<close>

datatype server_msg =
    ClientLeft "js_string option" nat
  | Event nat

text \<open>
  \<open>clients\<close> is the \<open>Map\<close> from sockets to their metadata, in insertion order;
  \<open>wss_clients\<close> is the socket set kept by the WebSocket server itself.  The last
  three fields record the effects: the messages handed to a successful \<open>ws.send\<close>,
  the sockets removed by \<open>clients.delete\<close> inside \<open>broadcast\<close>, and the sockets
  given to \<open>ws.terminate\<close>.
\<close>

record server =
  clients :: "(ws \<times> client_info) list"
  wss_clients :: "ws list"
  sockets :: "ws \<Rightarrow> socket"
  delivered :: "(ws \<times> server_msg) list"
  evicted :: "ws list"
  terminated :: "ws list"

text \<open>The body of the \<open>forEach\<close> in \<open>broadcast\<close>, with the running \<open>sentCount\<close>.\<close>

definition broadcast_step ::
  "server_msg \<Rightarrow> ws \<Rightarrow> ws \<Rightarrow> nat \<times> server \<Rightarrow> nat \<times> server" where
  "broadcast_step message sender w acc =
     (let sentCount = fst acc; st = snd acc in
      if w \<noteq> sender \<and> readyState (sockets st w) = OPEN then
        if throws (sockets st w)
        then (sentCount,
              st\<lparr>clients := AList.delete w (clients st), evicted := evicted st @ [w]\<rparr>)
        else (sentCount + 1, st\<lparr>delivered := delivered st @ [(w, message)]\<rparr>)
      else (sentCount, st))"

definition broadcast :: "server_msg \<Rightarrow> ws \<Rightarrow> server \<Rightarrow> nat \<times> server" where
  "broadcast data sender st =
     fold (broadcast_step data sender) (map fst (clients st)) (0, st)"

text \<open>A sequence of broadcasts, each with its own excluded sender.\<close>

fun broadcasts :: "(server_msg \<times> ws) list \<Rightarrow> server \<Rightarrow> server" where
  "broadcasts [] st = st"
| "broadcasts ((data, sender) # es) st = broadcasts es (snd (broadcast data sender st))"

text \<open>The \<open>'close'\<close> handler of a connection.\<close>

definition on_close :: "ws \<Rightarrow> server \<Rightarrow> server" where
  "on_close w st =
     (let clientInfo = map_of (clients st) w;
          st1 = st\<lparr>clients := AList.delete w (clients st),
                    wss_clients := removeAll w (wss_clients st),
                    sockets := (sockets st)(w := (sockets st w)\<lparr>readyState := CLOSED\<rparr>)\<rparr>
      in snd (broadcast (ClientLeft (map_option info_id clientInfo) (length (clients st1)))
                w st1))"

text \<open>The body of the \<open>forEach\<close> of the heartbeat timer.\<close>

definition heartbeat_step :: "ws \<Rightarrow> server \<Rightarrow> server" where
  "heartbeat_step w st =
     (if \<not> isAlive (sockets st w)
      then st\<lparr>clients := AList.delete w (clients st), terminated := terminated st @ [w]\<rparr>
      else st\<lparr>sockets := (sockets st)(w := (sockets st w)\<lparr>isAlive := False\<rparr>)\<rparr>)"

text \<open>
  One cycle of the heartbeat timer, followed by the \<open>'close'\<close> events of the sockets
  it terminated.
\<close>

definition heartbeat :: "server \<Rightarrow> server" where
  "heartbeat st =
     (let st1 = fold heartbeat_step (wss_clients st) (st\<lparr>terminated := []\<rparr>)
      in fold on_close (terminated st1) st1)"

section \<open>Client: trails, cursors and the socket\<close>

record point =
  px :: rat
  py :: rat
  pcolor :: js_string
  psize :: jsnum
  pglow :: jsnum
  timestamp :: int

record cursor =
  cx :: rat
  cy :: rat
  cursor_timestamp :: int
  cursor_settings :: settings

datatype client_msg =
    UpdateSettings settings
  | LightTrail rat rat settings
  | MousePosition rat rat settings
  | ClearRequest
  | Ping

text \<open>
  The fields of \<open>LightTrailsClient\<close> that the socket and the stores use.  \<open>socket_state\<close>
  is \<open>this.ws\<close> (\<open>None\<close> for \<open>null\<close>) with its \<open>readyState\<close>;
  \<open>settingsUpdateTimeout\<close> is the pending timer with its delay; \<open>outbox\<close> records the
  messages handed to \<open>this.ws.send\<close>.  \<open>this.cursorMode\<close> and \<open>this.username\<close> are the
  fields \<open>currentCursorMode\<close> and \<open>currentUsername\<close>; a \<open>clientId\<close> that is \<open>null\<close>
  or empty is falsy.
\<close>

record client =
  socket_state :: "ready_state option"
  clientId :: "js_string option"
  currentColor :: js_string
  currentSize :: jsnum
  currentGlow :: jsnum
  currentCursorMode :: js_string
  currentUsername :: js_string
  isDrawing :: bool
  trailPoints :: "point list"
  allTrails :: "(js_string \<times> point list) list"
  lastTrailPoints :: "(js_string \<times> point) list"
  otherCursors :: "(js_string \<times> cursor) list"
  userSettings :: "(js_string \<times> settings) list"
  lastMousePosition :: "(rat \<times> rat) option"
  lastMousePositionSent :: int
  settingsUpdateTimeout :: "nat option"
  outbox :: "client_msg list"

definition getCurrentSettings :: "client \<Rightarrow> settings" where
  "getCurrentSettings c =
     \<lparr>color = Some (currentColor c), size_v = Some (currentSize c),
      glow = Some (currentGlow c), cursorMode = Some (currentCursorMode c),
      username = Some (currentUsername c)\<rparr>"

definition is_open :: "client \<Rightarrow> bool" where
  "is_open c \<longleftrightarrow> socket_state c = Some OPEN"

definition ws_send :: "client_msg \<Rightarrow> client \<Rightarrow> client" where
  "ws_send m c = c\<lparr>outbox := outbox c @ [m]\<rparr>"

definition sendSettingsUpdate :: "client \<Rightarrow> client" where
  "sendSettingsUpdate c0 =
     (let c = c0\<lparr>settingsUpdateTimeout := None\<rparr> in
      if \<not> is_open c then c\<lparr>settingsUpdateTimeout := Some 320\<rparr>
      else
        let settings = getCurrentSettings c;
            c1 = (case clientId c of
                    Some cid \<Rightarrow>
                      if cid \<noteq> []
                      then c\<lparr>userSettings := AList.update cid settings (userSettings c)\<rparr>
                      else c
                  | None \<Rightarrow> c)
        in ws_send (UpdateSettings settings) c1)"

definition queueSettingsUpdate :: "client \<Rightarrow> client" where
  "queueSettingsUpdate c = c\<lparr>settingsUpdateTimeout := Some 120\<rparr>"

text \<open>The pending settings timer fires: its callback is \<open>sendSettingsUpdate\<close>.\<close>

definition settings_timer_fires :: "client \<Rightarrow> client" where
  "settings_timer_fires c =
     (case settingsUpdateTimeout c of None \<Rightarrow> c | Some d \<Rightarrow> sendSettingsUpdate c)"

text \<open>The socket opens: \<open>readyState\<close> becomes \<open>OPEN\<close> and \<open>onopen\<close> runs.\<close>

definition onopen :: "client \<Rightarrow> client" where
  "onopen c = sendSettingsUpdate (c\<lparr>socket_state := Some OPEN\<rparr>)"

definition trailPointSpacing :: rat where
  "trailPointSpacing = 3"

text \<open>
  \<open>draw\<close> at canvas coordinates \<open>(x, y)\<close> and time \<open>now\<close>.  The distance test
  \<open>Math.sqrt(dx * dx + dy * dy) < trailPointSpacing\<close> is written on the squares.
\<close>

definition draw :: "rat \<Rightarrow> rat \<Rightarrow> int \<Rightarrow> client \<Rightarrow> client" where
  "draw x y now c =
     (if \<not> isDrawing c then c
      else if trailPoints c \<noteq> [] \<and>
              (x - px (last (trailPoints c))) * (x - px (last (trailPoints c))) +
              (y - py (last (trailPoints c))) * (y - py (last (trailPoints c)))
                < trailPointSpacing * trailPointSpacing
      then c
      else
        let p = \<lparr>px = x, py = y, pcolor = currentColor c, psize = currentSize c,
                 pglow = currentGlow c, timestamp = now\<rparr>;
            c1 = c\<lparr>trailPoints := trailPoints c @ [p]\<rparr>;
            c2 = (case clientId c1 of
                    None \<Rightarrow> c1
                  | Some cid \<Rightarrow>
                      if cid = [] then c1
                      else
                        c1\<lparr>allTrails :=
                              AList.update cid
                                ((case map_of (allTrails c1) cid of
                                    None \<Rightarrow> [] | Some ps \<Rightarrow> ps) @ [p])
                                (allTrails c1),
                            lastTrailPoints := lastTrailPoints c1 @ [(cid, p)]\<rparr>)
        in if is_open c2 then ws_send (LightTrail x y (getCurrentSettings c2)) c2 else c2)"

definition mousePositionThrottle :: int where
  "mousePositionThrottle = 50"

definition trackMousePosition :: "rat \<Rightarrow> rat \<Rightarrow> int \<Rightarrow> client \<Rightarrow> client" where
  "trackMousePosition x y now c0 =
     (let c = c0\<lparr>lastMousePosition := Some (x, y)\<rparr> in
      if now - lastMousePositionSent c < mousePositionThrottle then c
      else
        let c1 = c\<lparr>lastMousePositionSent := now\<rparr>
        in if is_open c1 then ws_send (MousePosition x y (getCurrentSettings c1)) c1 else c1)"

text \<open>
  The \<open>'clear'\<close>, \<open>'pong'\<close> and \<open>'error'\<close> cases of \<open>handleMessage\<close> (the canvas
  and the console are not part of the state).
\<close>

datatype inbound = Clear | Pong | ServerError

fun handleMessage :: "inbound \<Rightarrow> client \<Rightarrow> client" where
  "handleMessage Clear c = c\<lparr>allTrails := [], otherCursors := []\<rparr>"
| "handleMessage Pong c = c"
| "handleMessage ServerError c = c"

subsection \<open>Double-precision arithmetic of the fade\<close>

text \<open>
  Timestamps are whole milliseconds (\<open>Date.now()\<close>), so an age is an integer and exact.
  The quotient \<open>age / trailFadeTime\<close> and the difference \<open>1 - fadeProgress\<close> are
  rounded to the nearest double, ties to even.  \<open>rd\<close> is that rounding on the rationals,
  with a 53-bit significand and no bound on the exponent; it is the IEEE result wherever
  the exact value is zero or of magnitude between \<open>2 powi (-1022)\<close> and
  \<open>2 powi 1024\<close>.
\<close>

fun bitlength :: "nat \<Rightarrow> nat" where
  "bitlength n = (if n = 0 then 0 else Suc (bitlength (n div 2)))"

text \<open>The binary exponent \<open>\<lfloor>log\<^sub>2 x\<rfloor>\<close> of a positive rational.\<close>

definition ilog2 :: "rat \<Rightarrow> int" where
  "ilog2 x =
     (if 1 \<le> x then int (bitlength (nat \<lfloor>x\<rfloor>)) - 1
      else - int (bitlength (nat (\<lceil>1 / x\<rceil> - 1))))"

definition round_half_even :: "rat \<Rightarrow> int" where
  "round_half_even y =
     (let f = \<lfloor>y\<rfloor>; d = y - of_int f in
      if d < 1 / 2 then f
      else if 1 / 2 < d then f + 1
      else if even f then f else f + 1)"

definition rd :: "rat \<Rightarrow> rat" where
  "rd x =
     (if x = 0 then 0
      else
        let e = ilog2 \<bar>x\<bar> - 52;
            m = round_half_even (\<bar>x\<bar> / 2 powi e)
        in sgn x * of_int m * 2 powi e)"

subsection \<open>Pruning the trails\<close>

definition trailFadeTime :: int where
  "trailFadeTime = 4000"

definition minAlpha :: rat where
  "minAlpha = rd (1 / 20)"

text \<open>The predicate of \<open>trailPoints.filter\<close> in \<open>renderAllTrails\<close>.\<close>

definition isActive :: "int \<Rightarrow> point \<Rightarrow> bool" where
  "isActive now p =
     (let age = now - timestamp p in
      if trailFadeTime \<le> age then False
      else
        let fadeProgress = rd (of_int age / of_int trailFadeTime);
            alpha = rd (1 - fadeProgress)
        in minAlpha < alpha)"

type_synonym trails = "(js_string \<times> point list) list"

text \<open>
  The body of \<open>allTrails.forEach\<close>: the store and \<open>clientsToRemove\<close> are threaded
  through.  Painting the trail and scanning it for collisions read the points and leave
  the store alone.
\<close>

definition render_step ::
  "int \<Rightarrow> js_string \<times> point list \<Rightarrow> trails \<times> js_string list \<Rightarrow> trails \<times> js_string list"
  where
  "render_step now entry acc =
     (let activePoints = filter (isActive now) (snd entry) in
      if length activePoints = 0 then (fst acc, snd acc @ [fst entry])
      else (AList.update (fst entry) activePoints (fst acc), snd acc))"

definition renderAllTrails :: "int \<Rightarrow> trails \<Rightarrow> trails" where
  "renderAllTrails now store =
     (let acc = fold (render_step now) store (store, [])
      in fold AList.delete (snd acc) (fst acc))"

text \<open>The trail of an identity in the store; an identity without entry has no points.\<close>

definition trail_of :: "trails \<Rightarrow> js_string \<Rightarrow> point list" where
  "trail_of store cid = (case map_of store cid of None \<Rightarrow> [] | Some ps \<Rightarrow> ps)"

subsection \<open>Names of remote identities\<close>

datatype js_error = TypeError

text \<open>
  \<open>toUpperCase\<close> on the ASCII letters; the identities the server generates
  (\<open>client_\<close>, digits and base-36 digits) are ASCII.
\<close>

definition toUpperCase :: "js_string \<Rightarrow> js_string" where
  "toUpperCase s = map (\<lambda>c. if 0x61 \<le> c \<and> c \<le> 0x7A then c - 0x20 else c) s"

definition getFallbackUsername :: "js_string option \<Rightarrow> js_string" where
  "getFallbackUsername identity =
     (case identity of
        None \<Rightarrow> js ''Stellar''
      | Some cid \<Rightarrow>
          if cid = [] then js ''Stellar''
          else js ''Star-'' @ toUpperCase (drop (length cid - 4) cid))"

text \<open>
  The username that \<open>applyRemoteSettings\<close> stores for the identity \<open>cid\<close>:
  \<open>settings.username && settings.username.trim() ? settings.username.trim().slice(0, 18)
  : this.getFallbackUsername(clientId)\<close>.  A truthy value that is not a string has no
  \<open>trim\<close> method.
\<close>

definition remote_username :: "js_string \<Rightarrow> jsval \<Rightarrow> js_error + js_string" where
  "remote_username cid u =
     (if \<not> truthy u then Inr (getFallbackUsername (Some cid))
      else case u of
             JStr s \<Rightarrow>
               Inr (if trim s \<noteq> [] then take 18 (trim s)
                    else getFallbackUsername (Some cid))
           | _ \<Rightarrow> Inl TypeError)"

text \<open>A username that is present and not all whitespace.\<close>

definition nonblank :: "js_string option \<Rightarrow> bool" where
  "nonblank s = (case s of Some t \<Rightarrow> trim t \<noteq> [] | None \<Rightarrow> False)"

subsection \<open>Events of the client's socket and timers\<close>

text \<open>
  \<open>connect()\<close> creates a socket in state \<open>CONNECTING\<close>; the socket opens or closes; a
  control of the page queues a settings update; the settings timer or the 25-second
  keepalive timer fires.
\<close>

datatype client_event =
  Connect | Open | Close | QueueSettings | SettingsTimer | HeartbeatTimer

fun client_step :: "client_event \<Rightarrow> client \<Rightarrow> client" where
  "client_step Connect c = c\<lparr>socket_state := Some CONNECTING\<rparr>"
| "client_step Open c = onopen c"
| "client_step Close c = c\<lparr>socket_state := Some CLOSED\<rparr>"
| "client_step QueueSettings c = queueSettingsUpdate c"
| "client_step SettingsTimer c = settings_timer_fires c"
| "client_step HeartbeatTimer c = (if is_open c then ws_send Ping c else c)"

definition run :: "client_event list \<Rightarrow> client \<Rightarrow> client" where
  "run evs c = fold client_step evs c"

fun is_drawing_msg :: "client_msg \<Rightarrow> bool" where
  "is_drawing_msg (LightTrail x y s) = True"
| "is_drawing_msg (MousePosition x y s) = True"
| "is_drawing_msg m = False"

text \<open>A client that is still connecting, with the default settings, in mid-stroke.\<close>

definition demo_client :: client where
  "demo_client =
     \<lparr>socket_state = Some CONNECTING, clientId = None,
      currentColor = js ''#ff6b6b'', currentSize = Fin 1, currentGlow = Fin (6/5),
      currentCursorMode = js ''halo'', currentUsername = js ''Nova-123'',
      isDrawing = True, trailPoints = [], allTrails = [], lastTrailPoints = [],
      otherCursors = [], userSettings = [], lastMousePosition = None,
      lastMousePositionSent = 0,
      settingsUpdateTimeout = None, outbox = []\<rparr>"

section \<open>Notions used in the statements\<close>

text \<open>Sockets a broadcast sends to successfully, and sockets whose send raises.\<close>

definition reached :: "server \<Rightarrow> ws \<Rightarrow> ws \<Rightarrow> bool" where
  "reached st sender w \<longleftrightarrow>
     w \<noteq> sender \<and> readyState (sockets st w) = OPEN \<and> \<not> throws (sockets st w)"

definition failing :: "server \<Rightarrow> ws \<Rightarrow> ws \<Rightarrow> bool" where
  "failing st sender w \<longleftrightarrow>
     w \<noteq> sender \<and> readyState (sockets st w) = OPEN \<and> throws (sockets st w)"

text \<open>The messages a socket has received, in order.\<close>

definition inbox :: "server \<Rightarrow> ws \<Rightarrow> server_msg list" where
  "inbox st w = map snd (filter (\<lambda>d. fst d = w) (delivered st))"

text \<open>
  The registry has one socket whose transport fails, \<open>f\<close>, if it is still registered; it
  is open.
\<close>

definition one_failing :: "ws \<Rightarrow> server \<Rightarrow> bool" where
  "one_failing f st \<longleftrightarrow>
     distinct (map fst (clients st)) \<and>
     list_all (\<lambda>w. throws (sockets st w) = (w = f)) (map fst (clients st)) \<and>
     readyState (sockets st f) = OPEN"

text \<open>Three registered, open connections; the transport of the second one fails.\<close>

definition demo_server :: server where
  "demo_server =
     \<lparr>clients =
        [(1, \<lparr>info_id = js ''client_a'', info_settings = DEFAULT_SETTINGS\<rparr>),
         (2, \<lparr>info_id = js ''client_b'', info_settings = DEFAULT_SETTINGS\<rparr>),
         (3, \<lparr>info_id = js ''client_c'', info_settings = DEFAULT_SETTINGS\<rparr>)],
      wss_clients = [1, 2, 3],
      sockets = (\<lambda>w. \<lparr>readyState = OPEN, isAlive = True, throws = (w = 2)\<rparr>),
      delivered = [], evicted = [], terminated = []\<rparr>"

text \<open>The same registry with working transports; the second socket missed its pong.\<close>

definition stale_server :: server where
  "stale_server =
     \<lparr>clients =
        [(1, \<lparr>info_id = js ''client_a'', info_settings = DEFAULT_SETTINGS\<rparr>),
         (2, \<lparr>info_id = js ''client_b'', info_settings = DEFAULT_SETTINGS\<rparr>),
         (3, \<lparr>info_id = js ''client_c'', info_settings = DEFAULT_SETTINGS\<rparr>)],
      wss_clients = [1, 2, 3],
      sockets = (\<lambda>w. \<lparr>readyState = OPEN, isAlive = (w \<noteq> 2), throws = False\<rparr>),
      delivered = [], evicted = [], terminated = []\<rparr>"

text \<open>
  The opacity in the words of the specification: \<open>1 - (age / fadeDuration)\<^sup>2\<close>, clamped
  to \<open>[0, 1]\<close>.
\<close>

definition spec_opacity :: "int \<Rightarrow> rat" where
  "spec_opacity age = max 0 (min 1 (1 - (of_int age / of_int trailFadeTime)\<^sup>2))"

text \<open>
  What \<open>allTrails.forEach\<close> has made of an entry once it has visited it: an entry that
  keeps points holds the kept points, an entry that keeps none still holds its old array
  until the clean-up loop deletes it.
\<close>

definition active_entry :: "int \<Rightarrow> js_string \<times> point list \<Rightarrow> js_string \<times> point list" where
  "active_entry now e =
     (if filter (isActive now) (snd e) = [] then e
      else (fst e, filter (isActive now) (snd e)))"

text \<open>A trail point drawn with the default settings at time \<open>t\<close>.\<close>

definition demo_point :: "int \<Rightarrow> point" where
  "demo_point t =
     \<lparr>px = 10, py = 10, pcolor = js ''#ff6b6b'', psize = Fin 1, pglow = Fin (6/5),
      timestamp = t\<rparr>"

declare bitlength.simps [simp del]

section \<open>The settings reconciler\<close>

lemma clamp_Fin: "clamp (Fin q) (Fin (1/2)) (Fin 3) = Fin (max (1/2) (min 3 q))"
  by (simp add: clamp_def Math_max_def Math_min_def max_def min_def)

lemma clamp_PosInf: "clamp PosInf (Fin (1/2)) (Fin 3) = Fin 3"
  by (simp add: clamp_def Math_max_def Math_min_def)

lemma clamp_NegInf: "clamp NegInf (Fin (1/2)) (Fin 3) = Fin (1/2)"
  by (simp add: clamp_def Math_max_def Math_min_def)

lemma clamp_NaN: "clamp NaN (Fin (1/2)) (Fin 3) = NaN"
  by (simp add: clamp_def Math_max_def Math_min_def)

lemma clamp_range:
  assumes "n \<noteq> NaN"
  shows "\<exists>q. clamp n (Fin (1/2)) (Fin 3) = Fin q \<and> 1/2 \<le> q \<and> q \<le> 3"
proof (cases n)
  case NaN
  with assms show ?thesis by simp
next
  case NegInf
  have "clamp NegInf (Fin (1/2)) (Fin 3) = Fin (1/2) \<and> (1/2::rat) \<le> 1/2 \<and> (1/2::rat) \<le> 3"
    by (simp add: clamp_NegInf)
  with NegInf show ?thesis by blast
next
  case (Fin q)
  have "clamp (Fin q) (Fin (1/2)) (Fin 3) = Fin (max (1/2) (min 3 q)) \<and>
        1/2 \<le> max (1/2) (min 3 q) \<and> max (1/2) (min 3 q) \<le> 3"
    by (simp add: clamp_Fin)
  with Fin show ?thesis by blast
next
  case PosInf
  have "clamp PosInf (Fin (1/2)) (Fin 3) = Fin 3 \<and> (1/2::rat) \<le> 3 \<and> (3::rat) \<le> 3"
    by (simp add: clamp_PosInf)
  with PosInf show ?thesis by blast
qed

lemma clamp_clamp: "clamp (clamp n (Fin (1/2)) (Fin 3)) (Fin (1/2)) (Fin 3) = clamp n (Fin (1/2)) (Fin 3)"
  by (cases n) (auto simp: clamp_Fin clamp_PosInf clamp_NegInf clamp_NaN)

lemma sanitize_number_chosen:
  "sanitize_number v fb dflt = clamp (chosen_number v fb dflt) (Fin (1/2)) (Fin 3)"
  by (cases v) (auto simp: sanitize_number_def chosen_number_def num_nullish_def split: option.splits)

lemma chosen_number_not_NaN:
  "v \<noteq> JNum NaN \<Longrightarrow> fb \<noteq> Some NaN \<Longrightarrow> dflt \<noteq> NaN \<Longrightarrow> chosen_number v fb dflt \<noteq> NaN"
  by (cases v) (auto simp: chosen_number_def split: option.splits)

lemma js_nonempty [simp]: "js (c # cs) \<noteq> []"
  by (simp add: js_def)

lemma sanitize_color_nonempty: "sanitize_color c fallback \<noteq> []"
  by (auto simp: sanitize_color_def trimmed_string_def str_or_def DEFAULT_SETTINGS_def
           split: jsval.splits option.splits if_splits)

lemma sanitize_cursorMode_cases:
  "sanitize_cursorMode m fallback = js ''halo'' \<or> sanitize_cursorMode m fallback = js ''star''"
  by (simp add: sanitize_cursorMode_def Let_def)

lemma sanitize_username_length: "length (sanitize_username u fallback) \<le> 18"
  by (auto simp: sanitize_username_def split: option.splits)

text \<open>
  C1 (amended): for every raw settings input and every fallback record whose \<open>size\<close> and
  \<open>glow\<close> are not NaN, \<open>sanitizeSettings\<close> returns a record with every field present:
  the colour is a non-empty string, \<open>size\<close> and \<open>glow\<close> are finite numbers in
  \<open>[0.5, 3]\<close>, the cursor mode is \<open>halo\<close> or \<open>star\<close>, and the username has at most
  18 code units.  The number that is clamped is the raw field whenever its type is
  \<open>number\<close> (an infinity included, which becomes the nearer bound), else the fallback's
  field, else the default \<open>size = 1\<close>, \<open>glow = 1.2\<close>.
\<close>

theorem sanitizeSettings_in_range:
  assumes "raw_size raw \<noteq> JNum NaN" and "raw_glow raw \<noteq> JNum NaN"
    and "size_v fallback \<noteq> Some NaN" and "glow fallback \<noteq> Some NaN"
  shows "\<exists>c s g m u.
           sanitizeSettings raw fallback =
             \<lparr>color = Some c, size_v = Some (Fin s), glow = Some (Fin g),
              cursorMode = Some m, username = Some u\<rparr> \<and>
           c \<noteq> [] \<and> 1/2 \<le> s \<and> s \<le> 3 \<and> 1/2 \<le> g \<and> g \<le> 3 \<and>
           (m = js ''halo'' \<or> m = js ''star'') \<and> length u \<le> 18 \<and>
           Fin s = clamp (chosen_number (raw_size raw) (size_v fallback) (Fin 1))
                     (Fin (1/2)) (Fin 3) \<and>
           Fin g = clamp (chosen_number (raw_glow raw) (glow fallback) (Fin (6/5)))
                     (Fin (1/2)) (Fin 3) \<and>
           clamp (Fin q) (Fin (1/2)) (Fin 3) = Fin (max (1/2) (min 3 q)) \<and>
           clamp PosInf (Fin (1/2)) (Fin 3) = Fin 3 \<and>
           clamp NegInf (Fin (1/2)) (Fin 3) = Fin (1/2)"
proof -
  obtain s where s: "clamp (chosen_number (raw_size raw) (size_v fallback) (Fin 1)) (Fin (1/2)) (Fin 3) = Fin s"
      "1/2 \<le> s" "s \<le> 3"
    using clamp_range[OF chosen_number_not_NaN[OF assms(1) assms(3)], of "Fin 1"] by auto
  obtain g where g: "clamp (chosen_number (raw_glow raw) (glow fallback) (Fin (6/5))) (Fin (1/2)) (Fin 3) = Fin g"
      "1/2 \<le> g" "g \<le> 3"
    using clamp_range[OF chosen_number_not_NaN[OF assms(2) assms(4)], of "Fin (6/5)"] by auto
  have "sanitizeSettings raw fallback =
          \<lparr>color = Some (sanitize_color (raw_color raw) fallback), size_v = Some (Fin s),
           glow = Some (Fin g),
           cursorMode = Some (sanitize_cursorMode (raw_cursorMode raw) fallback),
           username = Some (sanitize_username (raw_username raw) fallback)\<rparr>"
    by (simp add: sanitizeSettings_def sanitize_number_chosen s g DEFAULT_SETTINGS_def)
  with s g sanitize_color_nonempty[of "raw_color raw" fallback]
    sanitize_cursorMode_cases[of "raw_cursorMode raw" fallback]
    sanitize_username_length[of "raw_username raw" fallback]
    clamp_Fin[of q] clamp_PosInf clamp_NegInf
  show ?thesis by (intro exI) auto
qed

theorem sanitizeSettings_in_range_witness:
  "raw_size (raw_empty\<lparr>raw_size := JNum PosInf, raw_username := JStr (js ''  Nova  '')\<rparr>)
     \<noteq> JNum NaN \<and>
   raw_glow (raw_empty\<lparr>raw_size := JNum PosInf, raw_username := JStr (js ''  Nova  '')\<rparr>)
     \<noteq> JNum NaN \<and>
   size_v DEFAULT_SETTINGS \<noteq> Some NaN \<and> glow DEFAULT_SETTINGS \<noteq> Some NaN \<and>
   (\<exists>c s g m u.
      sanitizeSettings
        (raw_empty\<lparr>raw_size := JNum PosInf, raw_username := JStr (js ''  Nova  '')\<rparr>)
        DEFAULT_SETTINGS =
        \<lparr>color = Some c, size_v = Some (Fin s), glow = Some (Fin g),
         cursorMode = Some m, username = Some u\<rparr> \<and>
      c \<noteq> [] \<and> 1/2 \<le> s \<and> s \<le> 3 \<and> 1/2 \<le> g \<and> g \<le> 3 \<and>
      (m = js ''halo'' \<or> m = js ''star'') \<and> length u \<le> 18)"
proof -
  let ?R = "raw_empty\<lparr>raw_size := JNum PosInf, raw_username := JStr (js ''  Nova  '')\<rparr>"
  have p: "raw_size ?R \<noteq> JNum NaN" "raw_glow ?R \<noteq> JNum NaN"
      "size_v DEFAULT_SETTINGS \<noteq> Some NaN" "glow DEFAULT_SETTINGS \<noteq> Some NaN"
    by (simp_all add: raw_empty_def DEFAULT_SETTINGS_def)
  from sanitizeSettings_in_range[OF p] p show ?thesis by blast
qed

text \<open>
  C1 as stated fails: a raw \<open>size\<close> of \<open>Infinity\<close> (the JSON number \<open>1e999\<close>) is not a
  finite number, yet it is not replaced by the fallback's value 1; it is clamped to 3.
\<close>

theorem sanitize_infinite_size_counterexample:
  "raw_size (raw_empty\<lparr>raw_size := JNum PosInf\<rparr>) = JNum PosInf \<and>
   size_v DEFAULT_SETTINGS = Some (Fin 1) \<and>
   size_v (sanitizeSettings (raw_empty\<lparr>raw_size := JNum PosInf\<rparr>) DEFAULT_SETTINGS) = Some (Fin 3)"
  by (simp add: raw_empty_def sanitizeSettings_def sanitize_number_chosen chosen_number_def
        clamp_PosInf DEFAULT_SETTINGS_def)


lemma trim_Nil [simp]: "trim [] = []"
  by (simp add: trim_def)

lemma dropWhile_rev_nonempty:
  "dropWhile P (rev xs) \<noteq> [] \<Longrightarrow> xs \<noteq> [] \<and> hd (rev (dropWhile P (rev xs))) = hd xs"
  by (induction xs rule: rev_induct) (auto simp: hd_append split: if_splits)

lemma trim_hd: "trim s \<noteq> [] \<Longrightarrow> \<not> isWhiteSpace (hd (trim s))"
proof -
  assume ne: "trim s \<noteq> []"
  let ?d = "dropWhile isWhiteSpace s"
  from ne have r: "dropWhile isWhiteSpace (rev ?d) \<noteq> []" by (simp add: trim_def)
  from dropWhile_rev_nonempty[OF r] have "?d \<noteq> []" "hd (trim s) = hd ?d"
    by (simp_all add: trim_def)
  then show ?thesis using hd_dropWhile[of isWhiteSpace s] by simp
qed

lemma trim_last: "trim s \<noteq> [] \<Longrightarrow> \<not> isWhiteSpace (last (trim s))"
proof -
  assume ne: "trim s \<noteq> []"
  let ?r = "rev (dropWhile isWhiteSpace s)"
  from ne have r: "dropWhile isWhiteSpace ?r \<noteq> []" by (simp add: trim_def)
  have "last (trim s) = hd (dropWhile isWhiteSpace ?r)"
    using r by (simp add: trim_def last_rev)
  then show ?thesis using hd_dropWhile[OF r] by simp
qed

lemma trim_id:
  assumes "s \<noteq> []" "\<not> isWhiteSpace (hd s)" "\<not> isWhiteSpace (last s)"
  shows "trim s = s"
proof -
  from assms(1,2) have a: "dropWhile isWhiteSpace s = s" by (cases s) auto
  from assms(1,3) have b: "dropWhile isWhiteSpace (rev s) = rev s"
    by (cases "rev s") (auto simp: last_rev[symmetric] hd_rev)
  show ?thesis by (simp add: trim_def a b)
qed

lemma trim_trim: "trim (trim s) = trim s"
proof (cases "trim s = []")
  case True
  then show ?thesis by simp
next
  case False
  then show ?thesis by (rule trim_id) (simp_all add: trim_hd trim_last False)
qed

lemma trim_length: "length (trim s) \<le> length s"
proof -
  have "length (dropWhile isWhiteSpace (rev (dropWhile isWhiteSpace s))) \<le> length (rev (dropWhile isWhiteSpace s))"
    by (rule length_dropWhile_le)
  also have "\<dots> \<le> length s" using length_dropWhile_le[of isWhiteSpace s] by simp
  finally show ?thesis by (simp add: trim_def)
qed

lemma trim_keeps_head:
  assumes "s \<noteq> []" "\<not> isWhiteSpace (hd s)"
  shows "trim s \<noteq> []"
proof -
  from assms have a: "dropWhile isWhiteSpace s = s" by (cases s) auto
  obtain x xs where s: "s = x # xs" using assms(1) by (cases s) auto
  with assms(2) have x: "\<not> isWhiteSpace x" by simp
  have "trim s = rev (dropWhile isWhiteSpace (rev s))" by (simp only: trim_def a)
  moreover have "dropWhile isWhiteSpace (rev s) \<noteq> []"
    using x by (simp add: s dropWhile_append)
  ultimately show ?thesis by simp
qed

text \<open>Truncating a trimmed, non-empty string leaves a string that trimming cannot empty.\<close>
lemma take_trim_nonblank:
  assumes "trim s \<noteq> []"
  shows "take 18 (trim s) \<noteq> []" and "trim (take 18 (trim s)) \<noteq> []"
    and "take 18 (trim (take 18 (trim s))) = trim (take 18 (trim s))"
proof -
  show a: "take 18 (trim s) \<noteq> []" using assms by simp
  have "hd (take 18 (trim s)) = hd (trim s)" using assms by (cases "trim s") auto
  with trim_hd[OF assms] have "\<not> isWhiteSpace (hd (take 18 (trim s)))" by simp
  with a show "trim (take 18 (trim s)) \<noteq> []" by (rule trim_keeps_head)
  have "length (trim (take 18 (trim s))) \<le> length (take 18 (trim s))" by (rule trim_length)
  then show "take 18 (trim (take 18 (trim s))) = trim (take 18 (trim s))" by simp
qed


lemma trimmed_string_JStr:
  "trim u \<noteq> [] \<Longrightarrow> trimmed_string (JStr u) = Some (trim u)"
  "trim u = [] \<Longrightarrow> trimmed_string (JStr u) = None"
  by (simp_all add: trimmed_string_def)

lemma trimmed_string_Some: "trimmed_string v = Some t \<Longrightarrow> t \<noteq> [] \<and> trim t = t \<and> (\<exists>s. v = JStr s \<and> t = trim s)"
  by (auto simp: trimmed_string_def trim_trim split: jsval.splits if_splits)

text \<open>The second pass on the username returns the trimmed first result.\<close>
lemma sanitize_username_again:
  "sanitize_username (JStr (sanitize_username u f)) f = trim (sanitize_username u f)"
proof (cases "sanitize_username u f = []")
  case True
  then have fb: "(case username f of
             Some t \<Rightarrow> if t \<noteq> [] \<and> trim t \<noteq> [] then take 18 (trim t) else []
           | None \<Rightarrow> []) = []"
    by (auto simp: sanitize_username_def dest: trimmed_string_Some split: option.splits)
  show ?thesis
    by (simp add: True) (simp add: sanitize_username_def trimmed_string_def fb)
next
  case False
  then obtain s where s: "trim s \<noteq> []" "sanitize_username u f = take 18 (trim s)"
    by (auto simp: sanitize_username_def dest: trimmed_string_Some split: option.splits if_splits)
  show ?thesis
    using take_trim_nonblank[OF s(1)]
    by (simp add: s(2)) (simp add: sanitize_username_def trimmed_string_def)
qed

lemma sanitize_color_again:
  "sanitize_color (JStr (sanitize_color c f)) f =
     (if trim (sanitize_color c f) = [] then sanitize_color c f else trim (sanitize_color c f))"
proof (cases "trim (sanitize_color c f) = []")
  case True
  have "trimmed_string c = None"
  proof (rule ccontr)
    assume "trimmed_string c \<noteq> None"
    then obtain t where t: "trimmed_string c = Some t" by auto
    then have "sanitize_color c f = t" by (simp add: sanitize_color_def)
    with trimmed_string_Some[OF t] True show False by simp
  qed
  then have "sanitize_color c f = str_or (color f) (the (color DEFAULT_SETTINGS))"
    by (simp add: sanitize_color_def)
  then show ?thesis using True by (simp add: sanitize_color_def trimmed_string_def)
next
  case False
  then show ?thesis by (simp add: sanitize_color_def trimmed_string_def)
qed

lemma sanitize_cursorMode_again:
  "sanitize_cursorMode (JStr (sanitize_cursorMode m f)) f = sanitize_cursorMode m f"
  using sanitize_cursorMode_cases[of m f]
  by (auto simp: sanitize_cursorMode_def Let_def js_def)

lemma sanitize_number_again:
  "sanitize_number (JNum (sanitize_number v fb d)) fb d = sanitize_number v fb d"
  by (simp add: sanitize_number_chosen chosen_number_def clamp_clamp)

lemma trim_default_color: "trim (the (color DEFAULT_SETTINGS)) = the (color DEFAULT_SETTINGS)"
  by (simp add: DEFAULT_SETTINGS_def trim_def js_def isWhiteSpace_def)

lemma sanitize_color_stable:
  assumes "case color f of Some c \<Rightarrow> trim c = c | None \<Rightarrow> True"
  shows "trim (sanitize_color c f) = sanitize_color c f"
proof (cases "trimmed_string c")
  case None
  then show ?thesis using assms trim_default_color
    by (auto simp: sanitize_color_def str_or_def split: option.splits)
next
  case (Some t)
  with trimmed_string_Some[OF Some] show ?thesis by (simp add: sanitize_color_def)
qed

lemma sanitize_username_stable:
  assumes "case username f of Some u \<Rightarrow> length u \<le> 18 | None \<Rightarrow> True"
    and "case trimmed_string u of Some t \<Rightarrow> length t \<le> 18 | None \<Rightarrow> True"
  shows "trim (sanitize_username u f) = sanitize_username u f"
proof (cases "trimmed_string u")
  case (Some t)
  with assms(2) trimmed_string_Some[OF Some] show ?thesis
    by (simp add: sanitize_username_def)
next
  case None
  show ?thesis
  proof (cases "username f")
    case None
    with \<open>trimmed_string u = None\<close> show ?thesis by (simp add: sanitize_username_def)
  next
    case (Some fu)
    with assms(1) have "length (trim fu) \<le> 18" using trim_length[of fu] by simp
    then have "take 18 (trim fu) = trim fu" by simp
    with Some \<open>trimmed_string u = None\<close> show ?thesis
      by (simp add: sanitize_username_def trim_trim)
  qed
qed

text \<open>
  C2 (amended): for every raw input \<open>x\<close> and every fallback \<open>f\<close>,
  \<open>sanitizeSettings(sanitizeSettings(x, f), f)\<close> equals \<open>sanitizeSettings(x, f)\<close> exactly
  when trimming leaves the username of \<open>sanitizeSettings(x, f)\<close> unchanged and leaves its
  colour unchanged or empty.  That is the case whenever the colour of \<open>f\<close> has no
  whitespace at its ends, the username of \<open>f\<close> has at most 18 code units and the trimmed
  raw username has at most 18 code units.
\<close>

theorem sanitizeSettings_idempotent_iff:
  "(sanitizeSettings (as_raw (sanitizeSettings x f)) f = sanitizeSettings x f \<longleftrightarrow>
     trim (sanitize_username (raw_username x) f) = sanitize_username (raw_username x) f \<and>
     (trim (sanitize_color (raw_color x) f) = sanitize_color (raw_color x) f \<or>
      trim (sanitize_color (raw_color x) f) = [])) \<and>
   ((case color f of Some c \<Rightarrow> trim c = c | None \<Rightarrow> True) \<and>
    (case username f of Some u \<Rightarrow> length u \<le> 18 | None \<Rightarrow> True) \<and>
    (case trimmed_string (raw_username x) of Some t \<Rightarrow> length t \<le> 18 | None \<Rightarrow> True) \<longrightarrow>
    sanitizeSettings (as_raw (sanitizeSettings x f)) f = sanitizeSettings x f)"
proof -
  have iff: "sanitizeSettings (as_raw (sanitizeSettings x f)) f = sanitizeSettings x f \<longleftrightarrow>
     trim (sanitize_username (raw_username x) f) = sanitize_username (raw_username x) f \<and>
     (trim (sanitize_color (raw_color x) f) = sanitize_color (raw_color x) f \<or>
      trim (sanitize_color (raw_color x) f) = [])"
    by (auto simp: sanitizeSettings_def as_raw_def sanitize_username_again sanitize_color_again
          sanitize_cursorMode_again sanitize_number_again)
  have suff: "sanitizeSettings (as_raw (sanitizeSettings x f)) f = sanitizeSettings x f"
    if "case color f of Some c \<Rightarrow> trim c = c | None \<Rightarrow> True"
      "case username f of Some u \<Rightarrow> length u \<le> 18 | None \<Rightarrow> True"
      "case trimmed_string (raw_username x) of Some t \<Rightarrow> length t \<le> 18 | None \<Rightarrow> True"
    using that sanitize_color_stable[of f "raw_color x"]
      sanitize_username_stable[of f "raw_username x"]
    by (simp only: iff simp_thms)
  from iff suff show ?thesis by blast
qed

theorem sanitizeSettings_idempotent_witness:
  "sanitizeSettings
     (as_raw (sanitizeSettings (raw_empty\<lparr>raw_username := JStr (js '' Nova-123 '')\<rparr>)
                DEFAULT_SETTINGS))
     DEFAULT_SETTINGS
   = sanitizeSettings (raw_empty\<lparr>raw_username := JStr (js '' Nova-123 '')\<rparr>) DEFAULT_SETTINGS"
proof -
  let ?x = "raw_empty\<lparr>raw_username := JStr (js '' Nova-123 '')\<rparr>"
  have c: "case color DEFAULT_SETTINGS of Some c \<Rightarrow> trim c = c | None \<Rightarrow> True"
    by (simp add: DEFAULT_SETTINGS_def trim_def js_def isWhiteSpace_def)
  have u: "case username DEFAULT_SETTINGS of Some u \<Rightarrow> length u \<le> 18 | None \<Rightarrow> True"
    by (simp add: DEFAULT_SETTINGS_def)
  have t: "case trimmed_string (raw_username ?x) of Some t \<Rightarrow> length t \<le> 18 | None \<Rightarrow> True"
    by (simp add: trimmed_string_def trim_def js_def isWhiteSpace_def raw_empty_def)
  from sanitizeSettings_idempotent_iff[of ?x DEFAULT_SETTINGS] c u t show ?thesis by blast
qed

text \<open>
  C2 as stated fails: a username whose eighteenth code unit is a space is truncated to a
  string that ends in that space, and the second pass trims it off.
\<close>

theorem sanitize_not_idempotent_counterexample:
  "sanitizeSettings
     (as_raw (sanitizeSettings (raw_empty\<lparr>raw_username := JStr (js ''aaaaaaaaaaaaaaaaa  b'')\<rparr>)
                DEFAULT_SETTINGS))
     DEFAULT_SETTINGS
   \<noteq> sanitizeSettings (raw_empty\<lparr>raw_username := JStr (js ''aaaaaaaaaaaaaaaaa  b'')\<rparr>)
         DEFAULT_SETTINGS"
  by (simp add: sanitizeSettings_def as_raw_def sanitize_username_def trimmed_string_def
        trim_def js_def isWhiteSpace_def raw_empty_def DEFAULT_SETTINGS_def)

lemma getFallbackUsername_nonempty: "getFallbackUsername cid \<noteq> []"
  by (simp add: getFallbackUsername_def js_def split: option.splits)

text \<open>
  C3 (amended): in \<open>sanitizeSettings\<close>, a raw username that is a string and not all
  whitespace is trimmed and cut to 18 code units (exactly 18 when the trimmed string is
  longer); otherwise the trimmed fallback username, cut to 18, is used when it is not
  blank; otherwise the result is the empty string.  The placeholder is supplied by the
  client: for a missing or blank username \<open>applyRemoteSettings\<close> stores
  \<open>getFallbackUsername\<close> of the identity, which for an ASCII identity is \<open>Star-\<close>
  followed by its last four code units in upper case, and the name it stores is never
  empty.
\<close>

theorem sanitize_username_cases:
  "(trimmed_string (raw_username raw) = Some t \<longrightarrow>
      username (sanitizeSettings raw fallback) = Some (take 18 t) \<and>
      take 18 t \<noteq> [] \<and>
      (18 < length t \<longrightarrow> length (take 18 t) = 18)) \<and>
   (trimmed_string (raw_username raw) = None \<and> username fallback = Some f \<and> trim f \<noteq> [] \<longrightarrow>
      username (sanitizeSettings raw fallback) = Some (take 18 (trim f)) \<and>
      take 18 (trim f) \<noteq> []) \<and>
   (trimmed_string (raw_username raw) = None \<and> \<not> nonblank (username fallback) \<longrightarrow>
      username (sanitizeSettings raw fallback) = Some []) \<and>
   (trimmed_string u = None \<and> remote_username cid u = Inr name \<longrightarrow>
      name = getFallbackUsername (Some cid) \<and> name \<noteq> [] \<and>
      (cid \<noteq> [] \<and> list_all (\<lambda>c. c < 0x80) cid \<longrightarrow>
         name = js ''Star-'' @ toUpperCase (drop (length cid - 4) cid))) \<and>
   (remote_username cid u = Inr name \<longrightarrow> name \<noteq> [] \<and> length name \<le> 18)"
proof -
  have a: "username (sanitizeSettings raw fallback) = Some (take 18 t) \<and> take 18 t \<noteq> [] \<and>
      (18 < length t \<longrightarrow> length (take 18 t) = 18)"
    if "trimmed_string (raw_username raw) = Some t"
    using that trimmed_string_Some[OF that]
    by (simp add: sanitizeSettings_def sanitize_username_def)
  have b: "username (sanitizeSettings raw fallback) = Some (take 18 (trim f)) \<and>
      take 18 (trim f) \<noteq> []"
    if "trimmed_string (raw_username raw) = None" "username fallback = Some f" "trim f \<noteq> []"
    using that by (auto simp: sanitizeSettings_def sanitize_username_def)
  have c: "username (sanitizeSettings raw fallback) = Some []"
    if "trimmed_string (raw_username raw) = None" "\<not> nonblank (username fallback)"
    using that by (auto simp: sanitizeSettings_def sanitize_username_def nonblank_def split: option.splits)
  have d: "name = getFallbackUsername (Some cid) \<and> name \<noteq> [] \<and>
      (cid \<noteq> [] \<and> list_all (\<lambda>c. c < 0x80) cid \<longrightarrow>
         name = js ''Star-'' @ toUpperCase (drop (length cid - 4) cid))"
    if "trimmed_string u = None" "remote_username cid u = Inr name"
  proof -
    from that have "name = getFallbackUsername (Some cid)"
      by (auto simp: remote_username_def trimmed_string_def split: if_splits jsval.splits)
    then show ?thesis
      using getFallbackUsername_nonempty[of "Some cid"]
      by (simp add: getFallbackUsername_def)
  qed
  have e: "name \<noteq> [] \<and> length name \<le> 18" if "remote_username cid u = Inr name"
  proof -
    have "length (getFallbackUsername (Some cid)) \<le> 18"
      by (auto simp: getFallbackUsername_def js_def toUpperCase_def)
    with that getFallbackUsername_nonempty[of "Some cid"] show ?thesis
      by (auto simp: remote_username_def split: if_splits jsval.splits)
  qed
  from a b c d e show ?thesis by blast
qed

theorem sanitize_username_cases_witness:
  "username (sanitizeSettings
               (raw_empty\<lparr>raw_username := JStr (js ''  ABCDEFGHIJKLMNOPQRSTUVWXYZ '')\<rparr>)
               DEFAULT_SETTINGS) = Some (js ''ABCDEFGHIJKLMNOPQR'') \<and>
   username (sanitizeSettings raw_empty (DEFAULT_SETTINGS\<lparr>username := Some (js '' Nova '')\<rparr>))
     = Some (js ''Nova'') \<and>
   username (sanitizeSettings raw_empty DEFAULT_SETTINGS) = Some [] \<and>
   remote_username (js ''client_1700000000000_k3j9x2abc'') (JStr (js ''  ''))
     = Inr (js ''Star-2ABC'')"
proof -
  let ?long = "raw_empty\<lparr>raw_username := JStr (js ''  ABCDEFGHIJKLMNOPQRSTUVWXYZ '')\<rparr>"
  let ?fb = "DEFAULT_SETTINGS\<lparr>username := Some (js '' Nova '')\<rparr>"
  let ?cid = "js ''client_1700000000000_k3j9x2abc''"
  have t1: "trimmed_string (raw_username ?long) = Some (js ''ABCDEFGHIJKLMNOPQRSTUVWXYZ'')"
    by (simp add: trimmed_string_def trim_def js_def isWhiteSpace_def raw_empty_def)
  have t2: "trimmed_string (raw_username raw_empty) = None"
    by (simp add: trimmed_string_def raw_empty_def)
  have f2: "username ?fb = Some (js '' Nova '')" "trim (js '' Nova '') \<noteq> []"
      "take 18 (trim (js '' Nova '')) = js ''Nova''"
    by (simp_all add: trim_def js_def isWhiteSpace_def)
  have f3: "\<not> nonblank (username DEFAULT_SETTINGS)"
    by (simp add: nonblank_def DEFAULT_SETTINGS_def)
  have t4: "trimmed_string (JStr (js ''  '')) = None"
    by (simp add: trimmed_string_def trim_def js_def isWhiteSpace_def)
  have r4: "remote_username ?cid (JStr (js ''  '')) = Inr (js ''Star-2ABC'')"
    by (simp add: remote_username_def getFallbackUsername_def toUpperCase_def trim_def js_def
          isWhiteSpace_def)
  have a: "username (sanitizeSettings ?long DEFAULT_SETTINGS) = Some (js ''ABCDEFGHIJKLMNOPQR'')"
    using sanitize_username_cases[of ?long "js ''ABCDEFGHIJKLMNOPQRSTUVWXYZ''" DEFAULT_SETTINGS]
      t1 by (simp add: js_def)
  have b: "username (sanitizeSettings raw_empty ?fb) = Some (js ''Nova'')"
    using sanitize_username_cases[of raw_empty _ ?fb "js '' Nova ''"] t2 f2 by simp
  have c: "username (sanitizeSettings raw_empty DEFAULT_SETTINGS) = Some []"
    using sanitize_username_cases[of raw_empty _ DEFAULT_SETTINGS] t2 f3 by simp
  from a b c r4 show ?thesis by simp
qed

text \<open>
  C3 as stated fails: with no raw username and the default fallback, the sanitized
  username is the empty string.
\<close>

theorem sanitize_empty_username_counterexample:
  "username (sanitizeSettings raw_empty DEFAULT_SETTINGS) = Some []"
  by (simp add: sanitizeSettings_def sanitize_username_def trimmed_string_def raw_empty_def
        DEFAULT_SETTINGS_def)

section \<open>Pruning: the store after a render pass\<close>

lemma fst_active_entry [simp]: "fst (active_entry now e) = fst e"
  by (simp add: active_entry_def)

lemma update_middle:
  "k \<notin> fst ` set xs \<Longrightarrow> AList.update k v (xs @ (k, w) # ys) = xs @ (k, v) # ys"
  by (induction xs) auto

lemma fold_render_step:
  "distinct (map fst (pre @ rest)) \<Longrightarrow>
   fold (render_step now) rest (map (active_entry now) pre @ rest, R) =
     (map (active_entry now) (pre @ rest),
      R @ map fst (filter (\<lambda>e. filter (isActive now) (snd e) = []) rest))"
proof (induction rest arbitrary: pre R)
  case Nil
  then show ?case by simp
next
  case (Cons e rest)
  obtain k ps where e: "e = (k, ps)" by (cases e)
  from Cons.prems have d: "distinct (map fst ((pre @ [e]) @ rest))" by simp
  from Cons.prems e have knot: "k \<notin> fst ` set (map (active_entry now) pre)"
    by (auto simp: image_iff)
  let ?g = "active_entry now"
  let ?dead = "\<lambda>e. filter (isActive now) (snd e) = []"
  have unfold: "fold (render_step now) (e # rest) (map ?g pre @ e # rest, R) =
      fold (render_step now) rest (render_step now e (map ?g pre @ e # rest, R))"
    by simp
  show ?case
  proof (cases "filter (isActive now) ps = []")
    case True
    then have step: "render_step now e (map ?g pre @ e # rest, R) =
        (map ?g (pre @ [e]) @ rest, R @ [k])"
      by (simp add: render_step_def e active_entry_def)
    have "fold (render_step now) rest (map ?g (pre @ [e]) @ rest, R @ [k]) =
        (map ?g ((pre @ [e]) @ rest), (R @ [k]) @ map fst (filter ?dead rest))"
      by (rule Cons.IH[OF d])
    also have "\<dots> = (map ?g (pre @ e # rest), R @ map fst (filter ?dead (e # rest)))"
      using True by (simp add: e)
    finally show ?thesis
      by (simp only: unfold step)
  next
    case False
    then have step: "render_step now e (map ?g pre @ e # rest, R) =
        (map ?g (pre @ [e]) @ rest, R)"
      using update_middle[OF knot, of "filter (isActive now) ps" ps rest]
      by (simp add: render_step_def e active_entry_def)
    have "fold (render_step now) rest (map ?g (pre @ [e]) @ rest, R) =
        (map ?g ((pre @ [e]) @ rest), R @ map fst (filter ?dead rest))"
      by (rule Cons.IH[OF d])
    also have "\<dots> = (map ?g (pre @ e # rest), R @ map fst (filter ?dead (e # rest)))"
      using False by (simp add: e)
    finally show ?thesis
      by (simp only: unfold step)
  qed
qed

lemma filter_map_cong:
  "(\<And>e. e \<in> set xs \<Longrightarrow> P (g e) = Q (h e) \<and> (Q (h e) \<longrightarrow> g e = h e)) \<Longrightarrow>
   filter P (map g xs) = filter Q (map h xs)"
  by (induction xs) auto

lemma fold_delete_filter:
  "fold AList.delete ks xs = filter (\<lambda>e. fst e \<notin> set ks) xs"
  by (induction ks arbitrary: xs) (auto simp: AList.delete_eq intro: filter_cong)

lemma renderAllTrails_eq:
  assumes "distinct (map fst store)"
  shows "renderAllTrails now store =
           filter (\<lambda>e. snd e \<noteq> []) (map (\<lambda>e. (fst e, filter (isActive now) (snd e))) store)"
proof -
  let ?dead = "\<lambda>e. filter (isActive now) (snd e) = []"
  have f: "fold (render_step now) store (store, []) =
             (map (active_entry now) store, map fst (filter ?dead store))"
    using fold_render_step[of "[]" store now "[]"] assms by simp
  have key: "fst e \<in> fst ` set (filter ?dead store) \<longleftrightarrow> ?dead e" if "e \<in> set store" for e
  proof
    assume "fst e \<in> fst ` set (filter ?dead store)"
    then obtain e' where e': "e' \<in> set store" "?dead e'" "fst e' = fst e" by auto
    with that assms have "e' = e"
      by (metis eq_key_imp_eq_value prod.collapse)
    with e' show "?dead e" by simp
  next
    assume "?dead e" with that show "fst e \<in> fst ` set (filter ?dead store)" by auto
  qed
  have "renderAllTrails now store =
          filter (\<lambda>e. fst e \<notin> fst ` set (filter ?dead store)) (map (active_entry now) store)"
    by (simp add: renderAllTrails_def f fold_delete_filter)
  also have "\<dots> = filter (\<lambda>e. snd e \<noteq> []) (map (\<lambda>e. (fst e, filter (isActive now) (snd e))) store)"
  proof (rule filter_map_cong)
    fix e assume e: "e \<in> set store"
    show "(fst (active_entry now e) \<notin> fst ` set (filter ?dead store)) =
            (snd (fst e, filter (isActive now) (snd e)) \<noteq> []) \<and>
          (snd (fst e, filter (isActive now) (snd e)) \<noteq> [] \<longrightarrow>
            active_entry now e = (fst e, filter (isActive now) (snd e)))"
      using key[OF e] by (simp add: active_entry_def)
  qed
  finally show ?thesis .
qed



lemma map_of_filter_map:
  "distinct (map fst store) \<Longrightarrow>
   map_of (filter (\<lambda>e. snd e \<noteq> []) (map (\<lambda>e. (fst e, f (snd e))) store)) cid =
     (case map_of store cid of
        None \<Rightarrow> None
      | Some ps \<Rightarrow> if f ps = [] then None else Some (f ps))"
proof (induction store)
  case Nil
  then show ?case by simp
next
  case (Cons e store)
  have absent: "map_of (filter (\<lambda>e. snd e \<noteq> []) (map (\<lambda>e. (fst e, f (snd e))) store)) cid = None"
    if "cid \<notin> fst ` set store"
    using that by (force simp: map_of_eq_None_iff)
  show ?case
  proof (cases "fst e = cid")
    case True
    with Cons.prems have "cid \<notin> fst ` set store" by auto
    from absent[OF this] True show ?thesis by (cases e) auto
  next
    case False
    with Cons show ?thesis by (cases e) auto
  qed
qed

lemma trail_of_render:
  assumes "distinct (map fst store)"
  shows "trail_of (renderAllTrails now store) cid = filter (isActive now) (trail_of store cid)"
  by (simp add: renderAllTrails_eq[OF assms] trail_of_def map_of_filter_map[OF assms]
           split: option.splits)

lemma isActive_old: "trailFadeTime \<le> now - timestamp p \<Longrightarrow> \<not> isActive now p"
  by (simp add: isActive_def)

text \<open>
  C6: after a render pass no identity of the trail store is mapped to an empty point list;
  an identity none of whose points survive the pruning is removed from the store.
\<close>

theorem no_empty_trail_after_render:
  assumes "distinct (map fst store)"
  shows "(\<forall>e \<in> set (renderAllTrails now store). snd e \<noteq> []) \<and>
         (\<forall>cid. map_of (renderAllTrails now store) cid \<noteq> Some []) \<and>
         (\<forall>cid. filter (isActive now) (trail_of store cid) = [] \<longrightarrow>
                cid \<notin> fst ` set (renderAllTrails now store))"
proof -
  have a: "\<forall>e \<in> set (renderAllTrails now store). snd e \<noteq> []"
    by (simp add: renderAllTrails_eq[OF assms])
  have b: "map_of (renderAllTrails now store) cid \<noteq> Some []" for cid
  proof
    assume "map_of (renderAllTrails now store) cid = Some []"
    then have "(cid, []) \<in> set (renderAllTrails now store)" by (rule map_of_SomeD)
    with a show False by force
  qed
  have c: "cid \<notin> fst ` set (renderAllTrails now store)"
    if "filter (isActive now) (trail_of store cid) = []" for cid
  proof
    assume "cid \<in> fst ` set (renderAllTrails now store)"
    then obtain ps where ps: "map_of (renderAllTrails now store) cid = Some ps"
      by (metis domD dom_map_of_conv_image_fst)
    then have "trail_of (renderAllTrails now store) cid = ps" by (simp add: trail_of_def)
    with that have "ps = []" by (simp add: trail_of_render[OF assms])
    with ps b show False by simp
  qed
  from a b c show ?thesis by blast
qed

theorem no_empty_trail_after_render_witness:
  "distinct (map fst [(js ''a'', [demo_point 0]), (js ''b'', [demo_point 500, demo_point 900])]) \<and>
   map_of (renderAllTrails 4600
             [(js ''a'', [demo_point 0]), (js ''b'', [demo_point 500, demo_point 900])])
          (js ''b'') \<noteq> Some [] \<and>
   js ''a'' \<notin> fst ` set (renderAllTrails 4600
             [(js ''a'', [demo_point 0]), (js ''b'', [demo_point 500, demo_point 900])])"
proof -
  let ?S = "[(js ''a'', [demo_point 0]), (js ''b'', [demo_point 500, demo_point 900])]"
  have d: "distinct (map fst ?S)" by (simp add: js_def)
  have old: "filter (isActive 4600) (trail_of ?S (js ''a'')) = []"
    by (simp add: trail_of_def isActive_old demo_point_def trailFadeTime_def)
  from no_empty_trail_after_render[OF d, of 4600] old d show ?thesis by blast
qed

section \<open>The fade in double arithmetic\<close>

lemma bitlength_0 [simp]: "bitlength 0 = 0"
  by (simp add: bitlength.simps)

lemma bitlength_pos: "0 < n \<Longrightarrow> bitlength n = Suc (bitlength (n div 2))"
  by (subst bitlength.simps) simp

lemma bitlength_bounds:
  "0 < n \<Longrightarrow> 2 ^ (bitlength n - 1) \<le> n \<and> n < 2 ^ bitlength n"
proof (induction n rule: bitlength.induct)
  case (1 n)
  show ?case
  proof (cases "n div 2 = 0")
    case True
    with "1.prems" have "n = 1" by (simp add: div_eq_0_iff) 
    then show ?thesis by (simp add: bitlength_pos)
  next
    case False
    then have pos: "0 < n div 2" by simp
    from "1.prems" have "n \<noteq> 0" by simp
    from "1.IH"[OF this pos] have ih: "2 ^ (bitlength (n div 2) - 1) \<le> n div 2"
        "n div 2 < 2 ^ bitlength (n div 2)" by simp_all
    have b: "bitlength (n div 2) = Suc (bitlength (n div 2) - 1)"
      using pos by (simp add: bitlength_pos)
    have "2 ^ bitlength (n div 2) \<le> n"
    proof -
      have "2 ^ bitlength (n div 2) = 2 * 2 ^ (bitlength (n div 2) - 1)"
        by (subst b) simp
      also have "\<dots> \<le> 2 * (n div 2)" using ih(1) by simp
      also have "\<dots> \<le> n" by simp
      finally show ?thesis .
    qed
    moreover have "n < 2 * 2 ^ bitlength (n div 2)"
      using ih(2) by linarith
    ultimately show ?thesis using "1.prems" by (simp add: bitlength_pos)
  qed
qed

lemma ilog2_bounds:
  assumes "0 < x"
  shows "2 powi ilog2 x \<le> x \<and> x < 2 powi (ilog2 x + 1)"
proof (cases "1 \<le> x")
  case True
  let ?n = "nat \<lfloor>x\<rfloor>"
  let ?b = "bitlength ?n"
  from True have fl: "1 \<le> \<lfloor>x\<rfloor>" by simp
  then have npos: "0 < ?n" by simp
  from bitlength_bounds[OF npos] have bb: "2 ^ (?b - 1) \<le> ?n" "?n < 2 ^ ?b" by simp_all
  have bpos: "0 < ?b" using npos by (simp add: bitlength_pos)
  have il: "ilog2 x = int ?b - 1" using True by (simp add: ilog2_def)
  have e1: "ilog2 x = int (?b - 1)" using bpos il by simp
  have e2: "ilog2 x + 1 = int ?b" using il by simp
  have "(2::rat) ^ (?b - 1) \<le> of_nat ?n" using bb(1)
    by (metis of_nat_le_iff of_nat_numeral of_nat_power)
  also have "(of_nat ?n :: rat) = of_int \<lfloor>x\<rfloor>" using fl by simp
  also have "\<dots> \<le> x" by simp
  finally have lo: "2 powi ilog2 x \<le> x" by (simp only: e1 power_int_of_nat)
  from bb(2) have "Suc ?n \<le> 2 ^ ?b" by (rule Suc_leI)
  then have "(of_nat (Suc ?n) :: rat) \<le> 2 ^ ?b"
    by (metis of_nat_le_iff of_nat_numeral of_nat_power)
  moreover have "x < of_nat (Suc ?n)"
  proof -
    have "x < of_int \<lfloor>x\<rfloor> + 1" by linarith
    also have "\<dots> = of_nat (Suc ?n)" using fl by simp
    finally show ?thesis .
  qed
  ultimately have hi: "x < 2 powi (ilog2 x + 1)" by (simp only: e2 power_int_of_nat)
  from lo hi show ?thesis by simp
next
  case False
  let ?y = "1 / x"
  let ?m = "\<lceil>?y\<rceil> - 1"
  let ?b = "bitlength (nat ?m)"
  from False assms have y1: "1 < ?y" by simp
  then have "1 < \<lceil>?y\<rceil>" by (simp add: less_ceiling_iff)
  then have m1: "1 \<le> ?m" by simp
  then have mpos: "0 < nat ?m" by simp
  from m1 have m0: "0 \<le> ?m" by linarith
  have mrat: "(of_nat (nat ?m) :: rat) = of_int ?m"
    using m0 by (rule of_nat_nat)
  from bitlength_bounds[OF mpos] have bb: "2 ^ (?b - 1) \<le> nat ?m" "nat ?m < 2 ^ ?b" by simp_all
  have bpos: "0 < ?b" using mpos by (simp add: bitlength_pos)
  have il: "ilog2 x = - int ?b" using False by (simp add: ilog2_def)
  have m_lt: "of_int ?m < ?y" by linarith
  have y_le: "?y \<le> of_int ?m + 1" by (simp add: le_of_int_ceiling)
  from bb(2) have "Suc (nat ?m) \<le> 2 ^ ?b" by (rule Suc_leI)
  then have suc_le: "(of_nat (Suc (nat ?m)) :: rat) \<le> 2 ^ ?b"
    by (metis of_nat_le_iff of_nat_numeral of_nat_power)
  have suc_eq: "(of_nat (Suc (nat ?m)) :: rat) = of_int ?m + 1"
    by (simp only: of_nat_Suc mrat add.commute)
  have "?y \<le> 2 ^ ?b" using y_le suc_le suc_eq by linarith
  then have lo: "2 powi ilog2 x \<le> x"
    using assms by (simp add: il power_int_minus field_simps)
  have "(2::rat) ^ (?b - 1) \<le> of_nat (nat ?m)" using bb(1)
    by (metis of_nat_le_iff of_nat_numeral of_nat_power)
  also have "(of_nat (nat ?m) :: rat) = of_int ?m" by (rule mrat)
  finally have "(2::rat) ^ (?b - 1) < ?y" using m_lt by simp
  moreover have "ilog2 x + 1 = - int (?b - 1)" using il bpos by simp
  ultimately have hi: "x < 2 powi (ilog2 x + 1)"
    using assms by (simp add: power_int_minus field_simps del: of_nat_diff)
  from lo hi show ?thesis by simp
qed

lemma pow2_less_imp: "(2::rat) powi a < 2 powi b \<Longrightarrow> a < b"
proof (rule ccontr)
  assume lt: "(2::rat) powi a < 2 powi b" and "\<not> a < b"
  then have "b \<le> a" by simp
  then have "(2::rat) powi b \<le> 2 powi a" by (rule power_int_increasing) simp
  with lt show False by simp
qed

lemma ilog2_eq:
  assumes "2 powi e \<le> x" and "x < 2 powi (e + 1)"
  shows "ilog2 x = e"
proof -
  have "(0::rat) < 2 powi e" by simp
  from this assms(1) have pos: "0 < x" by (rule less_le_trans)
  from ilog2_bounds[OF pos] have b: "2 powi ilog2 x \<le> x" "x < 2 powi (ilog2 x + 1)" by simp_all
  have "(2::rat) powi e < 2 powi (ilog2 x + 1)" using assms(1) b(2) by simp
  then have 1: "e < ilog2 x + 1" by (rule pow2_less_imp)
  have "(2::rat) powi ilog2 x < 2 powi (e + 1)" using assms(2) b(1) by simp
  then have 2: "ilog2 x < e + 1" by (rule pow2_less_imp)
  from 1 2 show ?thesis by simp
qed

lemma round_half_even_eq:
  assumes "\<bar>y - of_int m\<bar> < 1 / 2"
  shows "round_half_even y = m"
proof (cases "of_int m \<le> y")
  case True
  with assms have "\<lfloor>y\<rfloor> = m" by (intro floor_unique) (simp_all add: abs_if split: if_splits)
  with assms True show ?thesis by (simp add: round_half_even_def Let_def)
next
  case False
  with assms have f: "\<lfloor>y\<rfloor> = m - 1" by (intro floor_unique) (simp_all add: abs_if split: if_splits)
  with assms False show ?thesis by (simp add: round_half_even_def Let_def abs_if split: if_splits)
qed

lemma rd_eq:
  assumes "2 powi e \<le> \<bar>x\<bar>" and "\<bar>x\<bar> < 2 powi (e + 1)"
    and "\<bar>\<bar>x\<bar> / 2 powi (e - 52) - of_int m\<bar> < 1 / 2"
  shows "rd x = sgn x * of_int m * 2 powi (e - 52)"
proof -
  have "(0::rat) < 2 powi e" by simp
  from this assms(1) have "0 < \<bar>x\<bar>" by (rule less_le_trans)
  then have "x \<noteq> 0" by simp
  moreover have "ilog2 \<bar>x\<bar> = e" using assms(1,2) by (rule ilog2_eq)
  ultimately show ?thesis
    using round_half_even_eq[OF assms(3)] by (simp add: rd_def Let_def)
qed


lemma round_half_even_bounds:
  "of_int (round_half_even y) - 1 / 2 \<le> y \<and> y \<le> of_int (round_half_even y) + 1 / 2"
proof -
  have fl: "of_int \<lfloor>y\<rfloor> \<le> y" "y < of_int \<lfloor>y\<rfloor> + 1" by linarith+
  consider (lo) "y - of_int \<lfloor>y\<rfloor> < 1 / 2" | (hi) "1 / 2 < y - of_int \<lfloor>y\<rfloor>"
    | (tie) "y - of_int \<lfloor>y\<rfloor> = 1 / 2" by linarith
  then show ?thesis
  proof cases
    case lo
    then have "round_half_even y = \<lfloor>y\<rfloor>" by (simp add: round_half_even_def Let_def)
    then have "(of_int (round_half_even y) :: rat) = of_int \<lfloor>y\<rfloor>" by simp
    with fl lo show ?thesis by linarith
  next
    case hi
    then have "round_half_even y = \<lfloor>y\<rfloor> + 1" by (simp add: round_half_even_def Let_def)
    then have "(of_int (round_half_even y) :: rat) = of_int \<lfloor>y\<rfloor> + 1" by simp
    with fl hi show ?thesis by linarith
  next
    case tie
    then have "round_half_even y = \<lfloor>y\<rfloor> \<or> round_half_even y = \<lfloor>y\<rfloor> + 1"
      by (simp add: round_half_even_def Let_def)
    then have "(of_int (round_half_even y) :: rat) = of_int \<lfloor>y\<rfloor> \<or>
               (of_int (round_half_even y) :: rat) = of_int \<lfloor>y\<rfloor> + 1" by auto
    with fl tie show ?thesis by linarith
  qed
qed

lemma round_half_even_mono:
  assumes "a \<le> b"
  shows "round_half_even a \<le> round_half_even b"
proof (rule ccontr)
  assume "\<not> round_half_even a \<le> round_half_even b"
  then have "round_half_even b + 1 \<le> round_half_even a" by simp
  then have gap: "(of_int (round_half_even b) :: rat) + 1 \<le> of_int (round_half_even a)"
    by (metis of_int_1 of_int_add of_int_le_iff)
  from round_half_even_bounds[of a] round_half_even_bounds[of b] gap assms
  have "a = b" by linarith
  with \<open>\<not> round_half_even a \<le> round_half_even b\<close> show False by simp
qed

lemma round_half_even_of_int [simp]: "round_half_even (of_int n) = n"
  by (rule round_half_even_eq) simp

text \<open>The rounded value of a positive number stays in the closure of its binade.\<close>
lemma rd_pos_bounds:
  assumes "0 < x"
  shows "rd x = of_int (round_half_even (x / 2 powi (ilog2 x - 52))) * 2 powi (ilog2 x - 52)"
    and "2 powi ilog2 x \<le> rd x" and "rd x \<le> 2 powi (ilog2 x + 1)"
proof -
  let ?e = "ilog2 x"
  let ?s = "(2::rat) powi (?e - 52)"
  let ?q = "x / ?s"
  have spos: "0 < ?s" by simp
  show eq: "rd x = of_int (round_half_even ?q) * ?s"
    using assms by (simp add: rd_def Let_def)
  from ilog2_bounds[OF assms] have b: "2 powi ?e \<le> x" "x < 2 powi (?e + 1)" by simp_all
  have s52: "(2::rat) powi ?e = 2 ^ 52 * ?s" and s53: "(2::rat) powi (?e + 1) = 2 ^ 53 * ?s"
    by (simp_all add: power_int_diff power_int_add)
  from b(1) have "2 ^ 52 * ?s \<le> x" by (simp only: s52)
  then have "(2::rat) ^ 52 \<le> ?q" using spos by (simp add: pos_le_divide_eq)
  then have "round_half_even (of_int (2 ^ 52)) \<le> round_half_even ?q"
    by (intro round_half_even_mono) simp
  then have lo: "(2::int) ^ 52 \<le> round_half_even ?q" by (simp only: round_half_even_of_int)
  from b(2) have "x < 2 ^ 53 * ?s" by (simp only: s53)
  then have "?q \<le> 2 ^ 53" using spos by (simp add: pos_divide_le_eq)
  then have "round_half_even ?q \<le> round_half_even (of_int (2 ^ 53))"
    by (intro round_half_even_mono) simp
  then have hi: "round_half_even ?q \<le> (2::int) ^ 53" by (simp only: round_half_even_of_int)
  from lo have "(2::rat) ^ 52 \<le> of_int (round_half_even ?q)"
    by (metis of_int_le_iff of_int_numeral of_int_power)
  then have "2 ^ 52 * ?s \<le> of_int (round_half_even ?q) * ?s"
    using spos by (simp only: mult_le_cancel_right_pos)
  then show "2 powi ?e \<le> rd x" by (simp only: eq s52)
  from hi have "(of_int (round_half_even ?q) :: rat) \<le> 2 ^ 53"
    by (metis of_int_le_iff of_int_numeral of_int_power)
  then have "of_int (round_half_even ?q) * ?s \<le> 2 ^ 53 * ?s"
    using spos by (simp only: mult_le_cancel_right_pos)
  then show "rd x \<le> 2 powi (?e + 1)" by (simp only: eq s53)
qed

lemma rd_mono_pos:
  assumes "0 < x" and "x \<le> y"
  shows "rd x \<le> rd y"
proof -
  from assms have ypos: "0 < y" by simp
  from ilog2_bounds[OF assms(1)] ilog2_bounds[OF ypos]
  have "(2::rat) powi ilog2 x < 2 powi (ilog2 y + 1)" using assms(2) by linarith
  then have le: "ilog2 x \<le> ilog2 y" using pow2_less_imp by fastforce
  show ?thesis
  proof (cases "ilog2 x = ilog2 y")
    case True
    let ?s = "(2::rat) powi (ilog2 y - 52)"
    have spos: "0 < ?s" by simp
    have "x / ?s \<le> y / ?s" using assms(2) spos by (simp add: divide_right_mono)
    then have "round_half_even (x / ?s) \<le> round_half_even (y / ?s)"
      by (rule round_half_even_mono)
    then have "(of_int (round_half_even (x / ?s)) :: rat) \<le> of_int (round_half_even (y / ?s))"
      by simp
    then have "of_int (round_half_even (x / ?s)) * ?s \<le> of_int (round_half_even (y / ?s)) * ?s"
      using spos by (simp only: mult_le_cancel_right_pos)
    then show ?thesis
      by (simp only: rd_pos_bounds(1)[OF assms(1)] rd_pos_bounds(1)[OF ypos] True)
  next
    case False
    with le have "ilog2 x + 1 \<le> ilog2 y" by simp
    then have "(2::rat) powi (ilog2 x + 1) \<le> 2 powi ilog2 y"
      by (rule power_int_increasing) simp
    with rd_pos_bounds(3)[OF assms(1)] rd_pos_bounds(2)[OF ypos] show ?thesis by linarith
  qed
qed

lemma rd_minus: "rd (- x) = - rd x"
  by (simp add: rd_def Let_def)

lemma rd_pos: "0 < x \<Longrightarrow> 0 < rd x"
proof -
  assume "0 < x"
  from rd_pos_bounds(2)[OF this] have "2 powi ilog2 x \<le> rd x" .
  moreover have "(0::rat) < 2 powi ilog2 x" by simp
  ultimately show ?thesis by linarith
qed

lemma rd_mono:
  assumes "x \<le> y"
  shows "rd x \<le> rd y"
proof -
  consider "0 < x" | "x \<le> 0" "0 \<le> y" | "y < 0" by linarith
  then show ?thesis
  proof cases
    case 1
    then show ?thesis using assms by (rule rd_mono_pos)
  next
    case 2
    have "rd x \<le> 0"
    proof (cases "x = 0")
      case True
      then show ?thesis by (simp add: rd_def)
    next
      case False
      with 2 have "0 < - x" by simp
      from rd_pos[OF this] show ?thesis by (simp add: rd_minus)
    qed
    moreover have "0 \<le> rd y"
    proof (cases "y = 0")
      case True
      then show ?thesis by (simp add: rd_def)
    next
      case False
      with 2 have "0 < y" by simp
      from rd_pos[OF this] show ?thesis by simp
    qed
    ultimately show ?thesis by simp
  next
    case 3
    with assms have "0 < - y" "- y \<le> - x" by simp_all
    then have "rd (- y) \<le> rd (- x)" by (rule rd_mono_pos)
    then show ?thesis by (simp add: rd_minus)
  qed
qed


text \<open>
  The roundings at the two ages next to the threshold: \<open>0.05\<close>, \<open>3800 / 4000\<close> and
  \<open>3801 / 4000\<close> are not doubles, the two differences from 1 are.
\<close>

lemma minAlpha_value: "minAlpha = 7205759403792794 / 2 ^ 57"
  using rd_eq[of "-5" "1 / 20" 7205759403792794] by (simp add: minAlpha_def)

lemma fadeProgress_3800: "rd (3800 / 4000) = 8556839292003942 / 2 ^ 53"
  using rd_eq[of "-1" "3800 / 4000" 8556839292003942] by simp

lemma alpha_3800: "rd (1 - 8556839292003942 / 2 ^ 53) = 7205759403792800 / 2 ^ 57"
  using rd_eq[of "-5" "1 - 8556839292003942 / 2 ^ 53" 7205759403792800] by simp

lemma fadeProgress_3801: "rd (3801 / 4000) = 8559091091817628 / 2 ^ 53"
  using rd_eq[of "-1" "3801 / 4000" 8559091091817628] by simp

lemma alpha_3801: "rd (1 - 8559091091817628 / 2 ^ 53) = 7169730606773824 / 2 ^ 57"
  using rd_eq[of "-5" "1 - 8559091091817628 / 2 ^ 53" 7169730606773824] by simp

text \<open>
  A point passes the filter exactly up to an age of 3800 ms: at 3800 the rounded
  \<open>1 - 0.95\<close> is still above the rounded \<open>0.05\<close>.
\<close>

lemma isActive_iff: "isActive now p \<longleftrightarrow> now - timestamp p \<le> 3800"
proof -
  let ?a = "now - timestamp p"
  let ?alpha = "rd (1 - rd (of_int ?a / of_int trailFadeTime))"
  have unfold: "isActive now p \<longleftrightarrow> ?a < 4000 \<and> minAlpha < ?alpha"
    by (auto simp: isActive_def Let_def trailFadeTime_def)
  consider (young) "?a \<le> 3800" | (old) "3801 \<le> ?a" by linarith
  then show ?thesis
  proof cases
    case young
    then have "(of_int ?a :: rat) \<le> 3800" by (metis of_int_le_iff of_int_numeral)
    then have "(of_int ?a :: rat) / of_int trailFadeTime \<le> 3800 / 4000"
      by (simp add: trailFadeTime_def)
    then have "rd (of_int ?a / of_int trailFadeTime) \<le> 8556839292003942 / 2 ^ 53"
      using rd_mono[of "of_int ?a / of_int trailFadeTime" "3800 / 4000"]
      by (simp only: fadeProgress_3800)
    then have "1 - 8556839292003942 / 2 ^ 53 \<le> 1 - rd (of_int ?a / of_int trailFadeTime)"
      by simp
    then have "7205759403792800 / 2 ^ 57 \<le> ?alpha"
      using rd_mono[of "1 - 8556839292003942 / 2 ^ 53"
                       "1 - rd (of_int ?a / of_int trailFadeTime)"]
      by (simp only: alpha_3800)
    moreover have "minAlpha < 7205759403792800 / 2 ^ 57" by (simp add: minAlpha_value)
    ultimately have "minAlpha < ?alpha" by linarith
    with young show ?thesis by (simp add: unfold)
  next
    case old
    then have "(3801 :: rat) \<le> of_int ?a" by (metis of_int_le_iff of_int_numeral)
    then have "3801 / 4000 \<le> (of_int ?a :: rat) / of_int trailFadeTime"
      by (simp add: trailFadeTime_def)
    then have "8559091091817628 / 2 ^ 53 \<le> rd (of_int ?a / of_int trailFadeTime)"
      using rd_mono[of "3801 / 4000" "of_int ?a / of_int trailFadeTime"]
      by (simp only: fadeProgress_3801)
    then have "1 - rd (of_int ?a / of_int trailFadeTime) \<le> 1 - 8559091091817628 / 2 ^ 53"
      by simp
    then have "?alpha \<le> 7169730606773824 / 2 ^ 57"
      using rd_mono[of "1 - rd (of_int ?a / of_int trailFadeTime)"
                       "1 - 8559091091817628 / 2 ^ 53"]
      by (simp only: alpha_3801)
    moreover have "7169730606773824 / 2 ^ 57 < minAlpha" by (simp add: minAlpha_value)
    ultimately have "\<not> minAlpha < ?alpha" by linarith
    with old show ?thesis by (simp add: unfold)
  qed
qed


section \<open>Which points a render pass keeps\<close>

text \<open>
  C4 (amended): after a render pass at time \<open>now\<close>, a point with timestamp \<open>t\<close> is in
  the trail of an identity exactly when it was there before, its age \<open>now - t\<close> is below
  the fade duration of 4000 ms and its linear opacity \<open>1 - age / 4000\<close>, computed in
  double arithmetic, is above the floor \<open>0.05\<close>; that is, exactly when it was there and
  its age is at most 3800 ms.  In particular a point whose age is 4000 ms or more is never
  in the trail.
\<close>

theorem trail_point_kept_iff:
  assumes "distinct (map fst store)"
  shows "(p \<in> set (trail_of (renderAllTrails now store) cid) \<longleftrightarrow>
            p \<in> set (trail_of store cid) \<and> now - timestamp p < trailFadeTime \<and>
            minAlpha < rd (1 - rd (of_int (now - timestamp p) / of_int trailFadeTime))) \<and>
         (p \<in> set (trail_of (renderAllTrails now store) cid) \<longleftrightarrow>
            p \<in> set (trail_of store cid) \<and> now - timestamp p \<le> 3800) \<and>
         (trailFadeTime \<le> now - timestamp p \<longrightarrow>
            p \<notin> set (trail_of (renderAllTrails now store) cid))"
proof -
  have m: "p \<in> set (trail_of (renderAllTrails now store) cid) \<longleftrightarrow>
             p \<in> set (trail_of store cid) \<and> isActive now p"
    by (simp add: trail_of_render[OF assms])
  have a: "isActive now p \<longleftrightarrow> now - timestamp p < trailFadeTime \<and>
             minAlpha < rd (1 - rd (of_int (now - timestamp p) / of_int trailFadeTime))"
    by (auto simp: isActive_def Let_def)
  have c: "\<not> isActive now p" if "trailFadeTime \<le> now - timestamp p"
    using that by (rule isActive_old)
  from m a c isActive_iff[of now p] show ?thesis by blast
qed

theorem trail_point_kept_iff_witness:
  "distinct (map fst [(js ''a'', [demo_point 0, demo_point 500])]) \<and>
   demo_point 500 \<in> set (trail_of (renderAllTrails 4100 [(js ''a'', [demo_point 0, demo_point 500])])
                            (js ''a'')) \<and>
   demo_point 0 \<notin> set (trail_of (renderAllTrails 4100 [(js ''a'', [demo_point 0, demo_point 500])])
                          (js ''a''))"
proof -
  let ?S = "[(js ''a'', [demo_point 0, demo_point 500])]"
  have d: "distinct (map fst ?S)" by simp
  have t: "trail_of ?S (js ''a'') = [demo_point 0, demo_point 500]"
    by (simp add: trail_of_def)
  have a1: "4100 - timestamp (demo_point 500) \<le> 3800"
    and a2: "trailFadeTime \<le> 4100 - timestamp (demo_point 0)"
    by (simp_all add: demo_point_def trailFadeTime_def)
  have i1: "demo_point 500 \<in> set (trail_of ?S (js ''a''))" by (simp add: t)
  from trail_point_kept_iff[OF d, of "demo_point 500" 4100 "js ''a''"] i1 a1
  have k: "demo_point 500 \<in> set (trail_of (renderAllTrails 4100 ?S) (js ''a''))" by blast
  from trail_point_kept_iff[OF d, of "demo_point 0" 4100 "js ''a''"] a2
  have g: "demo_point 0 \<notin> set (trail_of (renderAllTrails 4100 ?S) (js ''a''))" by blast
  from d k g show ?thesis by blast
qed

text \<open>
  C4 as stated fails: at an age of 3850 ms the opacity \<open>1 - (age / 4000)\<^sup>2\<close> of the
  specification is about 0.074, above the floor, but the render pass removes the point.
\<close>

theorem quadratic_opacity_counterexample:
  "demo_point 0 \<in> set (trail_of [(js ''a'', [demo_point 0])] (js ''a'')) \<and>
   3850 - timestamp (demo_point 0) < trailFadeTime \<and>
   1 / 20 < spec_opacity (3850 - timestamp (demo_point 0)) \<and>
   demo_point 0 \<notin> set (trail_of (renderAllTrails 3850 [(js ''a'', [demo_point 0])]) (js ''a''))"
proof -
  have d: "distinct (map fst [(js ''a'', [demo_point 0])])" by simp
  have "\<not> isActive 3850 (demo_point 0)"
    by (simp add: isActive_iff demo_point_def)
  then have "demo_point 0 \<notin> set (trail_of (renderAllTrails 3850 [(js ''a'', [demo_point 0])]) (js ''a''))"
    by (simp add: trail_of_render[OF d])
  moreover have "1 / 20 < spec_opacity (3850 - timestamp (demo_point 0))"
    by (simp add: spec_opacity_def demo_point_def trailFadeTime_def power2_eq_square)
  ultimately show ?thesis
    by (simp add: trail_of_def demo_point_def trailFadeTime_def)
qed

text \<open>
  C5 (amended): a trail point created at \<open>t = 0\<close> is still in the store after a render
  pass at \<open>t = 3800\<close> and is gone after one at \<open>t = 3801\<close>; after a pass at
  \<open>t = 4001\<close> it is gone and its identity has left the store.
\<close>

theorem point_present_until_3800:
  assumes "timestamp p = 0"
  shows "trail_of (renderAllTrails 3800 [(cid, [p])]) cid = [p] \<and>
         trail_of (renderAllTrails 3801 [(cid, [p])]) cid = [] \<and>
         trail_of (renderAllTrails 4001 [(cid, [p])]) cid = [] \<and>
         renderAllTrails 4001 [(cid, [p])] = []"
proof -
  have d: "distinct (map fst [(cid, [p])])" by simp
  have t: "trail_of [(cid, [p])] cid = [p]" by (simp add: trail_of_def)
  show ?thesis
    using assms
    by (simp add: trail_of_render[OF d] t renderAllTrails_eq[OF d] isActive_iff)
       (simp add: trail_of_def)
qed

theorem point_present_until_3800_witness:
  "timestamp (demo_point 0) = 0 \<and>
   trail_of (renderAllTrails 3800 [(js ''a'', [demo_point 0])]) (js ''a'') = [demo_point 0] \<and>
   renderAllTrails 4001 [(js ''a'', [demo_point 0])] = []"
proof -
  have h: "timestamp (demo_point 0) = 0" by (simp add: demo_point_def)
  from point_present_until_3800[OF h, of "js ''a''"] h show ?thesis by simp
qed

text \<open>
  C5 as stated fails: after a render pass at \<open>t = 3999\<close> the point created at \<open>t = 0\<close>
  is no longer in the store.
\<close>

theorem point_absent_at_3999_counterexample:
  "timestamp (demo_point 0) = 0 \<and>
   demo_point 0 \<notin> set (trail_of (renderAllTrails 3999 [(js ''a'', [demo_point 0])]) (js ''a''))"
proof -
  have d: "distinct (map fst [(js ''a'', [demo_point 0])])" by simp
  have "\<not> isActive 3999 (demo_point 0)"
    by (simp add: isActive_iff demo_point_def)
  then show ?thesis
    by (simp add: trail_of_render[OF d]) (simp add: demo_point_def)
qed

section \<open>Fan-out with a failing peer\<close>

lemma fold_broadcast_step:
  "fold (broadcast_step d s) ks (n, st) =
     (n + length (filter (reached st s) ks),
      st\<lparr>clients := fold AList.delete (filter (failing st s) ks) (clients st),
         evicted := evicted st @ filter (failing st s) ks,
         delivered := delivered st @ map (\<lambda>w. (w, d)) (filter (reached st s) ks)\<rparr>)"
proof (induction ks arbitrary: n st)
  case Nil
  show ?case by simp
next
  case (Cons k ks)
  show ?case
  proof (cases "failing st s k")
    case True
    let ?st = "st\<lparr>clients := AList.delete k (clients st), evicted := evicted st @ [k]\<rparr>"
    have step: "broadcast_step d s k (n, st) = (n, ?st)"
      using True by (simp add: broadcast_step_def failing_def)
    have same: "reached ?st s = reached st s" "failing ?st s = failing st s"
      by (simp_all add: reached_def failing_def fun_eq_iff)
    have nr: "\<not> reached st s k" using True by (simp add: reached_def failing_def)
    show ?thesis
      by (simp add: step Cons.IH same True nr)
  next
    case False
    show ?thesis
    proof (cases "reached st s k")
      case True
      let ?st = "st\<lparr>delivered := delivered st @ [(k, d)]\<rparr>"
      have step: "broadcast_step d s k (n, st) = (n + 1, ?st)"
        using True by (simp add: broadcast_step_def reached_def)
      have same: "reached ?st s = reached st s" "failing ?st s = failing st s"
        by (simp_all add: reached_def failing_def fun_eq_iff)
      show ?thesis
        by (simp add: step Cons.IH same True False)
    next
      case nr: False
      have step: "broadcast_step d s k (n, st) = (n, st)"
        using False nr by (auto simp: broadcast_step_def reached_def failing_def)
      show ?thesis
        by (simp add: step Cons.IH False nr)
    qed
  qed
qed

lemma broadcast_eq:
  "broadcast d s st =
     (length (filter (reached st s) (map fst (clients st))),
      st\<lparr>clients := filter (\<lambda>e. \<not> failing st s (fst e)) (clients st),
         evicted := evicted st @ filter (failing st s) (map fst (clients st)),
         delivered := delivered st @
           map (\<lambda>w. (w, d)) (filter (reached st s) (map fst (clients st)))\<rparr>)"
proof -
  have "fold AList.delete (filter (failing st s) (map fst (clients st))) (clients st) =
        filter (\<lambda>e. \<not> failing st s (fst e)) (clients st)"
    by (auto simp: fold_delete_filter intro: filter_cong)
  then show ?thesis by (simp add: broadcast_def fold_broadcast_step)
qed


lemma filter_eq_distinct:
  "distinct xs \<Longrightarrow> filter (\<lambda>k. k = a) xs = (if a \<in> set xs then [a] else [])"
  by (induction xs) auto

lemma inbox_append:
  "inbox (st\<lparr>delivered := delivered st @ map (\<lambda>k. (k, d)) ks\<rparr>) w =
     inbox st w @ map (\<lambda>k. d) (filter (\<lambda>k. k = w) ks)"
  by (induction ks) (auto simp: inbox_def)

lemma broadcast_one_failing:
  assumes H: "one_failing f st" and s: "s \<noteq> f"
  shows "clients (snd (broadcast d s st)) = filter (\<lambda>e. fst e \<noteq> f) (clients st)"
    and "evicted (snd (broadcast d s st)) =
           evicted st @ (if f \<in> set (map fst (clients st)) then [f] else [])"
    and "sockets (snd (broadcast d s st)) = sockets st"
    and "inbox (snd (broadcast d s st)) w =
           inbox st w @
           (if w \<in> set (map fst (clients st)) \<and> w \<noteq> f \<and> w \<noteq> s \<and>
               readyState (sockets st w) = OPEN then [d] else [])"
    and "one_failing f (snd (broadcast d s st))"
proof -
  let ?ks = "map fst (clients st)"
  from H have dist: "distinct ?ks"
    and thr: "\<And>k. k \<in> set ?ks \<Longrightarrow> throws (sockets st k) = (k = f)"
    and op: "readyState (sockets st f) = OPEN"
    by (auto simp: one_failing_def list_all_iff)
  have fail: "failing st s k \<longleftrightarrow> k = f" if "k \<in> set ?ks" for k
    using thr[OF that] s op by (auto simp: failing_def)
  have reach: "reached st s k \<longleftrightarrow> k \<noteq> f \<and> k \<noteq> s \<and> readyState (sockets st k) = OPEN"
    if "k \<in> set ?ks" for k
    using thr[OF that] by (auto simp: reached_def)
  have ff: "filter (failing st s) ?ks = (if f \<in> set ?ks then [f] else [])"
  proof -
    have "filter (failing st s) ?ks = filter (\<lambda>k. k = f) ?ks"
      by (rule filter_cong) (simp_all add: fail)
    then show ?thesis by (simp only: filter_eq_distinct[OF dist])
  qed
  show c: "clients (snd (broadcast d s st)) = filter (\<lambda>e. fst e \<noteq> f) (clients st)"
  proof -
    have "filter (\<lambda>e. \<not> failing st s (fst e)) (clients st) = filter (\<lambda>e. fst e \<noteq> f) (clients st)"
      by (rule filter_cong) (auto simp: fail)
    then show ?thesis by (simp add: broadcast_eq)
  qed
  show "evicted (snd (broadcast d s st)) = evicted st @ (if f \<in> set ?ks then [f] else [])"
    by (simp only: broadcast_eq snd_conv ff) simp
  show so: "sockets (snd (broadcast d s st)) = sockets st"
    by (simp add: broadcast_eq)
  show "inbox (snd (broadcast d s st)) w =
           inbox st w @
           (if w \<in> set ?ks \<and> w \<noteq> f \<and> w \<noteq> s \<and> readyState (sockets st w) = OPEN
            then [d] else [])"
  proof -
    have "inbox (snd (broadcast d s st)) w =
            inbox st w @ map (\<lambda>k. d) (filter (\<lambda>k. k = w) (filter (reached st s) ?ks))"
      by (simp add: broadcast_eq inbox_def) (simp add: inbox_def[symmetric] comp_def filter_map)
    also have "filter (\<lambda>k. k = w) (filter (reached st s) ?ks) =
                 filter (reached st s) (filter (\<lambda>k. k = w) ?ks)"
      by (simp add: conj_commute)
    also have "\<dots> = (if w \<in> set ?ks \<and> w \<noteq> f \<and> w \<noteq> s \<and> readyState (sockets st w) = OPEN
                      then [w] else [])"
      using reach[of w] by (simp add: filter_eq_distinct[OF dist])
    finally show ?thesis by simp
  qed
  show "one_failing f (snd (broadcast d s st))"
    using dist thr op
    by (auto simp: one_failing_def c so list_all_iff distinct_map_filter)
qed


lemma broadcasts_one_failing:
  assumes "one_failing f st" and "list_all (\<lambda>e. snd e \<noteq> f) evs"
  shows "clients (broadcasts evs st) =
           (if evs = [] then clients st else filter (\<lambda>e. fst e \<noteq> f) (clients st)) \<and>
         evicted (broadcasts evs st) =
           evicted st @ (if evs \<noteq> [] \<and> f \<in> set (map fst (clients st)) then [f] else []) \<and>
         inbox (broadcasts evs st) w =
           inbox st w @
           (if w \<in> set (map fst (clients st)) \<and> w \<noteq> f \<and> readyState (sockets st w) = OPEN
            then map fst (filter (\<lambda>e. snd e \<noteq> w) evs) else [])"
  using assms
proof (induction evs arbitrary: st)
  case Nil
  show ?case by simp
next
  case (Cons e evs)
  obtain d s where e: "e = (d, s)" by (cases e)
  with Cons.prems have s: "s \<noteq> f" and rest: "list_all (\<lambda>e. snd e \<noteq> f) evs" by simp_all
  let ?st = "snd (broadcast d s st)"
  note step = broadcast_one_failing[OF Cons.prems(1) s, of d]
  have keys: "fst ` set (clients ?st) = fst ` set (clients st) - {f}"
    by (auto simp: step(1))
  have ih: "clients (broadcasts evs ?st) =
           (if evs = [] then clients ?st else filter (\<lambda>e. fst e \<noteq> f) (clients ?st)) \<and>
         evicted (broadcasts evs ?st) =
           evicted ?st @ (if evs \<noteq> [] \<and> f \<in> set (map fst (clients ?st)) then [f] else []) \<and>
         inbox (broadcasts evs ?st) w =
           inbox ?st w @
           (if w \<in> set (map fst (clients ?st)) \<and> w \<noteq> f \<and> readyState (sockets ?st w) = OPEN
            then map fst (filter (\<lambda>e. snd e \<noteq> w) evs) else [])"
    by (rule Cons.IH[OF step(5) rest])
  have c: "clients (broadcasts (e # evs) st) = filter (\<lambda>e. fst e \<noteq> f) (clients st)"
    using ih by (simp add: e step(1))
  have ev: "evicted (broadcasts (e # evs) st) =
      evicted st @ (if f \<in> set (map fst (clients st)) then [f] else [])"
    using ih by (simp add: e keys step(2))
  have ib: "inbox (broadcasts (e # evs) st) w =
           inbox st w @
           (if w \<in> set (map fst (clients st)) \<and> w \<noteq> f \<and> readyState (sockets st w) = OPEN
            then map fst (filter (\<lambda>e. snd e \<noteq> w) (e # evs)) else [])"
    using ih by (simp add: e keys step(3) step(4)[of w])
  from c ev ib show ?case by simp
qed

text \<open>
  C7: N events (N at least 1) are broadcast to a registry in which exactly one connection,
  \<open>f\<close>, is open with a transport that fails on every send, and no event names \<open>f\<close> as
  its excluded sender.  Then every other registered open connection receives, in order,
  every event of which it is not the excluded sender (all N of them when it is excluded
  from none); \<open>f\<close> receives nothing; \<open>f\<close> is removed from the registry exactly once;
  and the registry afterwards is the old one without \<open>f\<close>.
\<close>

theorem broadcast_tolerates_failing_peer:
  assumes "one_failing f st" and "f \<in> fst ` set (clients st)"
    and "evs \<noteq> []" and "list_all (\<lambda>e. snd e \<noteq> f) evs"
  shows "(\<forall>w \<in> fst ` set (clients st).
            w \<noteq> f \<and> readyState (sockets st w) = OPEN \<longrightarrow>
            inbox (broadcasts evs st) w = inbox st w @ map fst (filter (\<lambda>e. snd e \<noteq> w) evs) \<and>
            (list_all (\<lambda>e. snd e \<noteq> w) evs \<longrightarrow>
               inbox (broadcasts evs st) w = inbox st w @ map fst evs)) \<and>
         inbox (broadcasts evs st) f = inbox st f \<and>
         evicted (broadcasts evs st) = evicted st @ [f] \<and>
         clients (broadcasts evs st) = filter (\<lambda>e. fst e \<noteq> f) (clients st)"
proof -
  note all = broadcasts_one_failing[OF assms(1) assms(4)]
  have a: "inbox (broadcasts evs st) w = inbox st w @ map fst (filter (\<lambda>e. snd e \<noteq> w) evs)"
    if "w \<in> fst ` set (clients st)" "w \<noteq> f" "readyState (sockets st w) = OPEN" for w
    using all[of w] that by simp
  have b: "inbox (broadcasts evs st) w = inbox st w @ map fst evs"
    if "w \<in> fst ` set (clients st)" "w \<noteq> f" "readyState (sockets st w) = OPEN"
      "list_all (\<lambda>e. snd e \<noteq> w) evs" for w
  proof -
    from that(4) have "filter (\<lambda>e. snd e \<noteq> w) evs = evs"
      by (simp add: list_all_iff)
    with a[OF that(1-3)] show ?thesis by simp
  qed
  have c: "inbox (broadcasts evs st) f = inbox st f"
    using all[of f] by simp
  have d: "evicted (broadcasts evs st) = evicted st @ [f]"
    using all[of f] assms(2,3) by simp
  have e: "clients (broadcasts evs st) = filter (\<lambda>e. fst e \<noteq> f) (clients st)"
    using all[of f] assms(3) by simp
  from a b c d e show ?thesis by blast
qed

theorem broadcast_tolerates_failing_peer_witness:
  "inbox (broadcasts [(Event 1, 0), (Event 2, 0)] demo_server) 1 = [Event 1, Event 2] \<and>
   inbox (broadcasts [(Event 1, 0), (Event 2, 0)] demo_server) 3 = [Event 1, Event 2] \<and>
   inbox (broadcasts [(Event 1, 0), (Event 2, 0)] demo_server) 2 = [] \<and>
   evicted (broadcasts [(Event 1, 0), (Event 2, 0)] demo_server) = [2] \<and>
   map fst (clients (broadcasts [(Event 1, 0), (Event 2, 0)] demo_server)) = [1, 3]"
proof -
  let ?evs = "[(Event 1, 0), (Event 2, 0)] :: (server_msg \<times> ws) list"
  have h1: "one_failing 2 demo_server"
    by (simp add: one_failing_def demo_server_def)
  have h2: "2 \<in> fst ` set (clients demo_server)"
    by (simp add: demo_server_def)
  have h3: "?evs \<noteq> []" by simp
  have h4: "list_all (\<lambda>e. snd e \<noteq> 2) ?evs" by simp
  from broadcast_tolerates_failing_peer[OF h1 h2 h3 h4]
  show ?thesis
    by (simp add: demo_server_def inbox_def)
qed


section \<open>Liveness time-out\<close>

text \<open>
  C8 fails on the code: the heartbeat deletes the registry entry before it terminates the
  socket, so the \<open>'close'\<close> handler finds no \<open>clientInfo\<close> and the \<open>clientLeft\<close> it
  broadcasts carries no \<open>clientId\<close>.  The same handler run for a socket that is still
  registered sends the identity.
\<close>

theorem heartbeat_clientLeft_without_id:
  "terminated (heartbeat stale_server) = [2] \<and>
   map fst (clients (heartbeat stale_server)) = [1, 3] \<and>
   delivered (heartbeat stale_server) = [(1, ClientLeft None 2), (3, ClientLeft None 2)] \<and>
   delivered (on_close 2 stale_server) =
     [(1, ClientLeft (Some (js ''client_b'')) 2), (3, ClientLeft (Some (js ''client_b'')) 2)]"
  by (simp add: heartbeat_def heartbeat_step_def on_close_def broadcast_def broadcast_step_def
        stale_server_def Let_def)

section \<open>Sending while the socket is not open\<close>

lemma sendSettingsUpdate_outbox:
  "outbox (sendSettingsUpdate c) =
     (if is_open c then outbox c @ [UpdateSettings (getCurrentSettings c)] else outbox c)"
  by (simp add: sendSettingsUpdate_def is_open_def ws_send_def getCurrentSettings_def Let_def
        split: option.splits)

lemma client_step_outbox:
  "\<exists>ms. outbox (client_step e c) = outbox c @ ms \<and> list_all (\<lambda>m. \<not> is_drawing_msg m) ms"
proof (cases e)
  case Open
  then show ?thesis
    by (simp add: onopen_def sendSettingsUpdate_outbox is_open_def)
next
  case SettingsTimer
  then show ?thesis
    by (cases "settingsUpdateTimeout c"; cases "is_open c")
       (simp_all add: settings_timer_fires_def sendSettingsUpdate_outbox)
next
  case HeartbeatTimer
  then show ?thesis by (simp add: ws_send_def)
qed (simp_all add: queueSettingsUpdate_def)

lemma run_outbox:
  "\<exists>ms. outbox (run evs c) = outbox c @ ms \<and> list_all (\<lambda>m. \<not> is_drawing_msg m) ms"
proof (induction evs arbitrary: c)
  case Nil
  show ?case by (simp add: run_def)
next
  case (Cons e evs)
  from client_step_outbox[of e c] obtain ms1 where
    1: "outbox (client_step e c) = outbox c @ ms1" "list_all (\<lambda>m. \<not> is_drawing_msg m) ms1"
    by blast
  from Cons.IH[of "client_step e c"] obtain ms2 where
    2: "outbox (run evs (client_step e c)) = outbox (client_step e c) @ ms2"
       "list_all (\<lambda>m. \<not> is_drawing_msg m) ms2"
    by blast
  have "outbox (run (e # evs) c) = outbox c @ (ms1 @ ms2)"
    using 1 2 by (simp add: run_def)
  moreover have "list_all (\<lambda>m. \<not> is_drawing_msg m) (ms1 @ ms2)" using 1 2 by simp
  ultimately show ?case by blast
qed

text \<open>
  C9 (amended): while the client's socket is not \<open>OPEN\<close>, \<open>draw\<close> and
  \<open>trackMousePosition\<close> send nothing and arm no timer, and whatever the socket and the
  timers do afterwards, no drawing or cursor message is ever sent for them.  A settings
  update is not sent either, but \<open>sendSettingsUpdate\<close> arms a 320 ms timer that calls it
  again, the timer re-arms itself for as long as the socket is not open, and the
  settings are sent when the socket opens.
\<close>

theorem closed_socket_drops_drawing_retries_settings:
  assumes "\<not> is_open c"
  shows "outbox (draw x y now c) = outbox c \<and>
         settingsUpdateTimeout (draw x y now c) = settingsUpdateTimeout c \<and>
         outbox (trackMousePosition x y now c) = outbox c \<and>
         settingsUpdateTimeout (trackMousePosition x y now c) = settingsUpdateTimeout c \<and>
         (\<exists>ms. outbox (run evs (draw x y now c)) = outbox c @ ms \<and>
               list_all (\<lambda>m. \<not> is_drawing_msg m) ms) \<and>
         (\<exists>ms. outbox (run evs (trackMousePosition x y now c)) = outbox c @ ms \<and>
               list_all (\<lambda>m. \<not> is_drawing_msg m) ms) \<and>
         outbox (sendSettingsUpdate c) = outbox c \<and>
         settingsUpdateTimeout (sendSettingsUpdate c) = Some 320 \<and>
         settingsUpdateTimeout (settings_timer_fires (sendSettingsUpdate c)) = Some 320 \<and>
         outbox (onopen (sendSettingsUpdate c)) =
           outbox c @ [UpdateSettings (getCurrentSettings c)]"
proof -
  have d: "outbox (draw x y now c) = outbox c"
      "settingsUpdateTimeout (draw x y now c) = settingsUpdateTimeout c"
    using assms by (simp_all add: draw_def is_open_def Let_def split: option.splits)
  have t: "outbox (trackMousePosition x y now c) = outbox c"
      "settingsUpdateTimeout (trackMousePosition x y now c) = settingsUpdateTimeout c"
    using assms by (simp_all add: trackMousePosition_def is_open_def Let_def)
  have s: "outbox (sendSettingsUpdate c) = outbox c"
      "settingsUpdateTimeout (sendSettingsUpdate c) = Some 320"
      "socket_state (sendSettingsUpdate c) = socket_state c"
      "getCurrentSettings (sendSettingsUpdate c) = getCurrentSettings c"
    using assms by (simp_all add: sendSettingsUpdate_def is_open_def getCurrentSettings_def)
  have r: "settingsUpdateTimeout (settings_timer_fires (sendSettingsUpdate c)) = Some 320"
    using assms s by (simp add: settings_timer_fires_def sendSettingsUpdate_def is_open_def)
  have o: "outbox (onopen (sendSettingsUpdate c)) =
             outbox c @ [UpdateSettings (getCurrentSettings c)]"
    using s by (simp add: onopen_def sendSettingsUpdate_outbox is_open_def getCurrentSettings_def)
  from run_outbox[of evs "draw x y now c"] run_outbox[of evs "trackMousePosition x y now c"]
    d t s r o
  show ?thesis by simp
qed

theorem closed_socket_drops_drawing_retries_settings_witness:
  "\<not> is_open demo_client \<and>
   outbox (draw 10 10 5 demo_client) = [] \<and>
   outbox (trackMousePosition 10 10 100 demo_client) = [] \<and>
   settingsUpdateTimeout (sendSettingsUpdate demo_client) = Some 320 \<and>
   outbox (onopen (sendSettingsUpdate demo_client)) =
     [UpdateSettings (getCurrentSettings demo_client)]"
proof -
  have h: "\<not> is_open demo_client" by (simp add: is_open_def demo_client_def)
  have e: "outbox demo_client = []" by (simp add: demo_client_def)
  from closed_socket_drops_drawing_retries_settings[OF h, of 10 10 5 "[]"]
       closed_socket_drops_drawing_retries_settings[OF h, of 10 10 100 "[]"] h e
  show ?thesis by simp
qed

text \<open>
  C9 as stated fails for settings: a settings update attempted while the socket is
  connecting arms the retry timer, and the update is transmitted once the socket opens.
\<close>

theorem closed_socket_settings_retry_counterexample:
  "\<not> is_open demo_client \<and>
   outbox (sendSettingsUpdate demo_client) = [] \<and>
   settingsUpdateTimeout (sendSettingsUpdate demo_client) = Some 320 \<and>
   outbox (run [SettingsTimer, Open] (sendSettingsUpdate demo_client)) =
     [UpdateSettings (getCurrentSettings demo_client)]"
  by (simp add: run_def onopen_def settings_timer_fires_def sendSettingsUpdate_def is_open_def
        ws_send_def getCurrentSettings_def demo_client_def)

section \<open>The clear message\<close>

text \<open>
  C10: handling a \<open>clear\<close> message from the server empties the whole trail store (the
  trail of every identity, the local one included) and deletes every remote cursor
  sample; the settings mirror \<open>userSettings\<close> is left as it was.
\<close>

theorem clear_empties_trails_and_cursors:
  "allTrails (handleMessage Clear c) = [] \<and>
   trail_of (allTrails (handleMessage Clear c)) cid = [] \<and>
   otherCursors (handleMessage Clear c) = [] \<and>
   map_of (otherCursors (handleMessage Clear c)) cid = None \<and>
   userSettings (handleMessage Clear c) = userSettings c"
  by (simp add: trail_of_def)

end
